theory Spec2Isabelle
  imports Main
begin

section \<open>The host's UTC calendar\<close>

text \<open>
  The program (\<^verbatim>\<open>src/petsapp/index.ts\<close>) works on JavaScript \<^verbatim>\<open>Date\<close> objects and
  only through their UTC getters and setters. A \<^verbatim>\<open>Date\<close> is modelled by its time value,
  the number of milliseconds since 1970-01-01T00:00:00.000Z, as an \<^typ>\<open>int\<close>. The
  functions of this section are the abstract operations of ECMA-262 (section "Date
  Objects": Day, TimeWithinDay, DaysInYear, DayFromYear, YearFromTime, MonthFromTime,
  DateFromTime, WeekDay, MakeTime, MakeDay, MakeDate) and the methods of
  \<^verbatim>\<open>Date.prototype\<close> the program calls.

  JavaScript numbers are modelled as unbounded integers: every number the program
  computes is an integer, and the model is exact as long as magnitudes stay within
  \<open>2\<^sup>5\<^sup>3\<close> and time values within the range of \<^verbatim>\<open>TimeClip\<close> (\<open>8.64 * 10\<^sup>1\<^sup>5\<close> ms around
  the epoch). Beyond that range a JavaScript \<^verbatim>\<open>Date\<close> becomes invalid (\<^verbatim>\<open>NaN\<close>), which
  is outside this model.
\<close>

definition msPerSecond :: int where [simp]: "msPerSecond = 1000"
definition msPerMinute :: int where [simp]: "msPerMinute = 60000"
definition msPerHour :: int where [simp]: "msPerHour = 3600000"
definition msPerDay :: int where [simp]: "msPerDay = 86400000"

text \<open>
  The time values of valid dates: \<^verbatim>\<open>TimeClip\<close> of ECMA-262 turns a time value beyond
  \<open>8.64 * 10\<^sup>1\<^sup>5\<close> ms into \<^verbatim>\<open>NaN\<close>, the time value of an invalid \<^verbatim>\<open>Date\<close>. The setters
  below do not apply \<^verbatim>\<open>TimeClip\<close>; a statement about every instant and every magnitude
  carries \<open>valid_time\<close> of the dates involved as a hypothesis.
\<close>

definition valid_time :: "int \<Rightarrow> bool" where
  "valid_time t = (\<bar>t\<bar> \<le> 8640000000000000)"

definition Day :: "int \<Rightarrow> int" where
  "Day t = t div msPerDay"

definition TimeWithinDay :: "int \<Rightarrow> int" where
  "TimeWithinDay t = t mod msPerDay"

definition DaysInYear :: "int \<Rightarrow> int" where
  "DaysInYear y =
     (if y mod 4 \<noteq> 0 then 365
      else if y mod 100 \<noteq> 0 then 366
      else if y mod 400 \<noteq> 0 then 365
      else 366)"

definition DayFromYear :: "int \<Rightarrow> int" where
  "DayFromYear y =
     365 * (y - 1970) + (y - 1969) div 4 - (y - 1901) div 100 + (y - 1601) div 400"

definition TimeFromYear :: "int \<Rightarrow> int" where
  "TimeFromYear y = msPerDay * DayFromYear y"

text \<open>
  ECMA-262 specifies \<open>YearFromTime t\<close> as the largest \<open>y\<close> with \<open>TimeFromYear y \<le> t\<close>.
  The executable form below starts from the estimate \<open>1970 + \<lfloor>400 d / 146097\<rfloor>\<close>
  (146097 days in 400 years), which is off by at most one year, and corrects it;
  \<open>YearFromTime_lower\<close>, \<open>YearFromTime_upper\<close> and \<open>YearFromTime_unique\<close> below prove
  that it is the specified year.
\<close>

definition YearFromTime :: "int \<Rightarrow> int" where
  "YearFromTime t =
     (let d = Day t; y0 = 1970 + (400 * d) div 146097
      in if DayFromYear (y0 + 1) \<le> d then y0 + 1
         else if DayFromYear y0 \<le> d then y0
         else y0 - 1)"

definition InLeapYear :: "int \<Rightarrow> int" where
  "InLeapYear t = (if DaysInYear (YearFromTime t) = 366 then 1 else 0)"

definition DayWithinYear :: "int \<Rightarrow> int" where
  "DayWithinYear t = Day t - DayFromYear (YearFromTime t)"

text \<open>The month table of ECMA-262, on the day within the year \<open>d\<close> and the leap flag \<open>l\<close>.\<close>

definition MonthOfDay :: "int \<Rightarrow> int \<Rightarrow> int" where
  "MonthOfDay d l =
     (if d < 31 then 0
      else if d < 59 + l then 1
      else if d < 90 + l then 2
      else if d < 120 + l then 3
      else if d < 151 + l then 4
      else if d < 181 + l then 5
      else if d < 212 + l then 6
      else if d < 243 + l then 7
      else if d < 273 + l then 8
      else if d < 304 + l then 9
      else if d < 334 + l then 10
      else 11)"

text \<open>The day within the year on which month \<open>m\<close> (0 to 11) starts.\<close>

definition MonthStart :: "int \<Rightarrow> int \<Rightarrow> int" where
  "MonthStart m l =
     (if m = 0 then 0
      else if m = 1 then 31
      else if m = 2 then 59 + l
      else if m = 3 then 90 + l
      else if m = 4 then 120 + l
      else if m = 5 then 151 + l
      else if m = 6 then 181 + l
      else if m = 7 then 212 + l
      else if m = 8 then 243 + l
      else if m = 9 then 273 + l
      else if m = 10 then 304 + l
      else 334 + l)"

text \<open>The number of days of month \<open>m\<close> (0 to 11) in a year with the leap flag \<open>l\<close>.\<close>

definition DaysInMonth :: "int \<Rightarrow> int \<Rightarrow> int" where
  "DaysInMonth m l =
     (if m = 1 then 28 + l
      else if m = 3 \<or> m = 5 \<or> m = 8 \<or> m = 10 then 30
      else 31)"

definition MonthFromTime :: "int \<Rightarrow> int" where
  "MonthFromTime t = MonthOfDay (DayWithinYear t) (InLeapYear t)"

definition DateFromTime :: "int \<Rightarrow> int" where
  "DateFromTime t =
     DayWithinYear t - MonthStart (MonthFromTime t) (InLeapYear t) + 1"

definition WeekDay :: "int \<Rightarrow> int" where
  "WeekDay t = (Day t + 4) mod 7"

definition HourFromTime :: "int \<Rightarrow> int" where
  "HourFromTime t = (t div msPerHour) mod 24"

definition MinFromTime :: "int \<Rightarrow> int" where
  "MinFromTime t = (t div msPerMinute) mod 60"

definition SecFromTime :: "int \<Rightarrow> int" where
  "SecFromTime t = (t div msPerSecond) mod 60"

definition msFromTime :: "int \<Rightarrow> int" where
  "msFromTime t = t mod msPerSecond"

definition MakeTime :: "int \<Rightarrow> int \<Rightarrow> int \<Rightarrow> int \<Rightarrow> int" where
  "MakeTime hour mn sec ms = hour * msPerHour + mn * msPerMinute + sec * msPerSecond + ms"

text \<open>
  ECMA-262: with \<open>ym = year + \<lfloor>month / 12\<rfloor>\<close> and \<open>mn = month mod 12\<close>, \<open>MakeDay\<close> finds a
  time \<open>t\<close> whose year is \<open>ym\<close>, whose month is \<open>mn\<close> and whose date is 1, and returns
  \<open>Day t + date - 1\<close>. That day is \<open>DayFromYear ym + MonthStart mn l\<close> (lemma
  \<open>MakeDay_first\<close> below).
\<close>

definition MakeDay :: "int \<Rightarrow> int \<Rightarrow> int \<Rightarrow> int" where
  "MakeDay year month date =
     (let ym = year + month div 12; mn = month mod 12;
          l = (if DaysInYear ym = 366 then 1 else 0)
      in DayFromYear ym + MonthStart mn l + date - 1)"

definition MakeDate :: "int \<Rightarrow> int \<Rightarrow> int" where
  "MakeDate day time = day * msPerDay + time"

text \<open>
  \<^verbatim>\<open>Date.UTC(year, month, date, hours, minutes, seconds, ms)\<close>, used to write instants:
  \<open>Date_UTC 2020 5 12 13 20 17 486\<close> is 2020-06-12T13:20:17.486Z (months count from 0).
  For a year from 0 to 99 \<^verbatim>\<open>Date.UTC\<close> adds 1900 to the year; no such year is written here.
\<close>

definition Date_UTC :: "int \<Rightarrow> int \<Rightarrow> int \<Rightarrow> int \<Rightarrow> int \<Rightarrow> int \<Rightarrow> int \<Rightarrow> int" where
  "Date_UTC y m dt h mi s ms = MakeDate (MakeDay y m dt) (MakeTime h mi s ms)"

subsection \<open>The methods of \<^verbatim>\<open>Date.prototype\<close> the program calls\<close>

definition getUTCFullYear :: "int \<Rightarrow> int" where "getUTCFullYear t = YearFromTime t"
definition getUTCMonth :: "int \<Rightarrow> int" where "getUTCMonth t = MonthFromTime t"
definition getUTCDate :: "int \<Rightarrow> int" where "getUTCDate t = DateFromTime t"
definition getUTCDay :: "int \<Rightarrow> int" where "getUTCDay t = WeekDay t"
definition getUTCHours :: "int \<Rightarrow> int" where "getUTCHours t = HourFromTime t"
definition getUTCMinutes :: "int \<Rightarrow> int" where "getUTCMinutes t = MinFromTime t"
definition getUTCSeconds :: "int \<Rightarrow> int" where "getUTCSeconds t = SecFromTime t"
definition getUTCMilliseconds :: "int \<Rightarrow> int" where "getUTCMilliseconds t = msFromTime t"

text \<open>
  The setters return the new time value of the date they mutate. An optional argument
  that is absent is \<open>None\<close> and defaults to the date's own field, as in ECMA-262.
\<close>

definition setUTCMilliseconds :: "int \<Rightarrow> int \<Rightarrow> int" where
  "setUTCMilliseconds t ms =
     MakeDate (Day t) (MakeTime (HourFromTime t) (MinFromTime t) (SecFromTime t) ms)"

definition setUTCSeconds :: "int \<Rightarrow> int \<Rightarrow> int option \<Rightarrow> int" where
  "setUTCSeconds t sec ms =
     MakeDate (Day t)
       (MakeTime (HourFromTime t) (MinFromTime t) sec
          (case ms of None \<Rightarrow> msFromTime t | Some x \<Rightarrow> x))"

definition setUTCMinutes :: "int \<Rightarrow> int \<Rightarrow> int option \<Rightarrow> int option \<Rightarrow> int" where
  "setUTCMinutes t mn sec ms =
     MakeDate (Day t)
       (MakeTime (HourFromTime t) mn
          (case sec of None \<Rightarrow> SecFromTime t | Some x \<Rightarrow> x)
          (case ms of None \<Rightarrow> msFromTime t | Some x \<Rightarrow> x))"

definition setUTCHours :: "int \<Rightarrow> int \<Rightarrow> int option \<Rightarrow> int option \<Rightarrow> int option \<Rightarrow> int" where
  "setUTCHours t hour mn sec ms =
     MakeDate (Day t)
       (MakeTime hour
          (case mn of None \<Rightarrow> MinFromTime t | Some x \<Rightarrow> x)
          (case sec of None \<Rightarrow> SecFromTime t | Some x \<Rightarrow> x)
          (case ms of None \<Rightarrow> msFromTime t | Some x \<Rightarrow> x))"

definition setUTCDate :: "int \<Rightarrow> int \<Rightarrow> int" where
  "setUTCDate t dt =
     MakeDate (MakeDay (YearFromTime t) (MonthFromTime t) dt) (TimeWithinDay t)"

definition setUTCMonth :: "int \<Rightarrow> int \<Rightarrow> int option \<Rightarrow> int" where
  "setUTCMonth t month dt =
     MakeDate
       (MakeDay (YearFromTime t) month (case dt of None \<Rightarrow> DateFromTime t | Some x \<Rightarrow> x))
       (TimeWithinDay t)"

definition setUTCFullYear :: "int \<Rightarrow> int \<Rightarrow> int" where
  "setUTCFullYear t year =
     MakeDate (MakeDay year (MonthFromTime t) (DateFromTime t)) (TimeWithinDay t)"

section \<open>The program\<close>

subsection \<open>Strings and numbers\<close>

definition is_digit :: "char \<Rightarrow> bool" where
  "is_digit c = (c \<in> set ''0123456789'')"

definition is_unit :: "char \<Rightarrow> bool" where
  "is_unit c = (c \<in> set ''dMyhmsw'')"

definition digit_val :: "char \<Rightarrow> int" where
  "digit_val c = int (of_char c) - 48"

text \<open>
  \<^verbatim>\<open>parseInt\<close> on the strings the program gives it, which are slices of a matched token
  and so hold decimal digits only: the value of the leading run of digits, or \<open>None\<close>
  (\<^verbatim>\<open>NaN\<close>) when there is none.
\<close>

definition parseInt :: "string \<Rightarrow> int option" where
  "parseInt s =
     (let ds = takeWhile is_digit s
      in if ds = [] then None else Some (foldl (\<lambda>a c. 10 * a + digit_val c) 0 ds))"

text \<open>\<^verbatim>\<open>s.slice(1, -1)\<close> and \<^verbatim>\<open>s.slice(-1)\<close>.\<close>

definition slice_1_m1 :: "string \<Rightarrow> string" where
  "slice_1_m1 s = butlast (tl s)"

definition slice_m1 :: "string \<Rightarrow> string" where
  "slice_m1 s = (if s = [] then [] else [last s])"

text \<open>The decimal text of an integer, as a template literal prints it.\<close>

definition digit_char :: "nat \<Rightarrow> char" where
  "digit_char n = ''0123456789'' ! n"

fun nat_str :: "nat \<Rightarrow> string" where
  "nat_str n =
     (if n < 10 then [digit_char n]
      else nat_str (n div 10) @ [digit_char (n mod 10)])"

declare nat_str.simps [simp del]

definition num_str :: "int \<Rightarrow> string" where
  "num_str i = (if i < 0 then CHR ''-'' # nat_str (nat (- i)) else nat_str (nat i))"

subsection \<open>\<^verbatim>\<open>applyAdjustment\<close> and \<^verbatim>\<open>applyRounding\<close>\<close>

datatype error =
    MissingPrefix
  | InvalidSign string
  | InvalidRoundingUnit string

text \<open>
  \<open>MissingPrefix\<close> is \<^verbatim>\<open>Error("Invalid date string: Must start with 'now'.")\<close>,
  \<open>InvalidSign op\<close> is \<^verbatim>\<open>Error(`Invalid sign in operation '${operation}'`)\<close> and
  \<open>InvalidRoundingUnit u\<close> is \<^verbatim>\<open>Error(`Invalid rounding unit: ${unit}`)\<close>.
\<close>

definition applyAdjustment :: "int \<Rightarrow> string \<Rightarrow> int \<Rightarrow> string \<Rightarrow> int" where
  "applyAdjustment date sign val unit =
     (let multiplier = (if sign = ''+'' then 1 else - 1)
      in if unit = ''d'' then setUTCDate date (getUTCDate date + val * multiplier)
         else if unit = ''M'' then setUTCMonth date (getUTCMonth date + val * multiplier) None
         else if unit = ''y'' then setUTCFullYear date (getUTCFullYear date + val * multiplier)
         else if unit = ''h'' then
           setUTCHours date (getUTCHours date + val * multiplier) None None None
         else if unit = ''m'' then
           setUTCMinutes date (getUTCMinutes date + val * multiplier) None None
         else if unit = ''s'' then setUTCSeconds date (getUTCSeconds date + val * multiplier) None
         else if unit = ''w'' then setUTCDate date (getUTCDate date + val * 7 * multiplier)
         else date)"

definition applyRounding :: "int \<Rightarrow> string \<Rightarrow> error + int" where
  "applyRounding date unit =
     (if unit = ''d'' then Inr (setUTCHours date 0 (Some 0) (Some 0) (Some 0))
      else if unit = ''M'' then
        Inr (setUTCHours (setUTCDate date 1) 0 (Some 0) (Some 0) (Some 0))
      else if unit = ''y'' then
        Inr (setUTCHours (setUTCMonth date 0 (Some 1)) 0 (Some 0) (Some 0) (Some 0))
      else if unit = ''h'' then Inr (setUTCMinutes date 0 (Some 0) (Some 0))
      else if unit = ''m'' then Inr (setUTCSeconds date 0 (Some 0))
      else if unit = ''s'' then Inr (setUTCMilliseconds date 0)
      else if unit = ''w'' then
        (let day = getUTCDay date
         in Inr (setUTCHours (setUTCDate date (getUTCDate date - day)) 0 (Some 0) (Some 0) (Some 0)))
      else Inl (InvalidRoundingUnit unit))"

subsection \<open>The operation pattern\<close>

text \<open>
  \<^verbatim>\<open>/([+-]?\d+[dMyhmsw]|\/[dMyhmsw])/g\<close>. Each function below gives the match of a
  part of the pattern at the start of a string, as the matched text and the rest of the
  string, or \<open>None\<close> when that part does not match there.

  \<open>digits_unit_at\<close> is \<^verbatim>\<open>\d+[dMyhmsw]\<close>: the whole run of digits (a shorter run is followed
  by a digit, never by a unit letter) and one unit letter. \<open>number_at\<close> is
  \<^verbatim>\<open>[+-]?\d+[dMyhmsw]\<close>: the sign is taken when there is one, and given up when the rest
  does not match after it. \<open>rounding_at\<close> is \<^verbatim>\<open>\/[dMyhmsw]\<close>, and \<open>regex_at\<close> the
  alternation, the first alternative before the second.
\<close>

definition digits_unit_at :: "string \<Rightarrow> (string \<times> string) option" where
  "digits_unit_at s =
     (let ds = takeWhile is_digit s
      in case dropWhile is_digit s of
           [] \<Rightarrow> None
         | u # r \<Rightarrow> if ds \<noteq> [] \<and> is_unit u then Some (ds @ [u], r) else None)"

definition number_at :: "string \<Rightarrow> (string \<times> string) option" where
  "number_at s =
     (case s of
        [] \<Rightarrow> None
      | c # cs \<Rightarrow>
          if c = CHR ''+'' \<or> c = CHR ''-'' then
            (case digits_unit_at cs of
               Some (tok, r) \<Rightarrow> Some (c # tok, r)
             | None \<Rightarrow> digits_unit_at s)
          else digits_unit_at s)"

definition rounding_at :: "string \<Rightarrow> (string \<times> string) option" where
  "rounding_at s =
     (case s of
        c # u # r \<Rightarrow> if c = CHR ''/'' \<and> is_unit u then Some ([c, u], r) else None
      | _ \<Rightarrow> None)"

definition regex_at :: "string \<Rightarrow> (string \<times> string) option" where
  "regex_at s = (case number_at s of Some m \<Rightarrow> Some m | None \<Rightarrow> rounding_at s)"

text \<open>
  \<open>match_all s\<close> is \<^verbatim>\<open>s.match(operationRegex) || []\<close>: the matches from left to right,
  each search starting where the last match ended, and one character further on where
  nothing matches.
\<close>

lemma digits_unit_at_split: "digits_unit_at s = Some (tok, r) \<Longrightarrow> s = tok @ r \<and> tok \<noteq> []"
proof -
  assume a: "digits_unit_at s = Some (tok, r)"
  have s: "s = takeWhile is_digit s @ dropWhile is_digit s"
    by simp
  from a obtain u where "dropWhile is_digit s = u # r" "tok = takeWhile is_digit s @ [u]"
    by (auto simp: digits_unit_at_def Let_def split: list.splits if_splits)
  with s show ?thesis
    by (metis append.assoc append_Cons append_Nil snoc_eq_iff_butlast)
qed

lemma number_at_split: "number_at s = Some (tok, r) \<Longrightarrow> s = tok @ r \<and> tok \<noteq> []"
  by (auto simp: number_at_def split: list.splits if_splits option.splits
      dest: digits_unit_at_split)

lemma rounding_at_split: "rounding_at s = Some (tok, r) \<Longrightarrow> s = tok @ r \<and> tok \<noteq> []"
  by (auto simp: rounding_at_def split: list.splits if_splits)

lemma regex_at_split: "regex_at s = Some (tok, r) \<Longrightarrow> s = tok @ r \<and> tok \<noteq> []"
  by (auto simp: regex_at_def split: option.splits dest: number_at_split rounding_at_split)

lemma regex_at_length: "regex_at s = Some (tok, r) \<Longrightarrow> length r < length s"
  by (auto dest!: regex_at_split)

function match_all :: "string \<Rightarrow> string list" where
  "match_all s =
     (if s = [] then []
      else (case regex_at s of
              Some (tok, r) \<Rightarrow> tok # match_all r
            | None \<Rightarrow> match_all (tl s)))"
  by pat_completeness auto
termination
  by (relation "measure length") (auto dest: regex_at_length)

declare match_all.simps [simp del]

lemma match_all_Nil [simp]: "match_all [] = []"
  by (subst match_all.simps) simp

lemma match_all_Some: "regex_at (c # s) = Some (tok, r) \<Longrightarrow> match_all (c # s) = tok # match_all r"
  by (subst match_all.simps) simp

lemma match_all_None: "regex_at (c # s) = None \<Longrightarrow> match_all (c # s) = match_all s"
  by (subst match_all.simps) simp

subsection \<open>\<^verbatim>\<open>parse\<close>\<close>

text \<open>
  The body of the \<^verbatim>\<open>forEach\<close> callback on one matched token, from the running date to
  the new one, or to the error thrown. \<^verbatim>\<open>operation[0]\<close> is \<open>take 1\<close>: the empty string
  stands for \<^verbatim>\<open>undefined\<close>, which is as falsy.
\<close>

definition apply_operation :: "int \<Rightarrow> string \<Rightarrow> error + int" where
  "apply_operation baseDate operation =
     (let sign = take 1 operation;
          val = (case parseInt (slice_1_m1 operation) of
                   None \<Rightarrow> 1
                 | Some v \<Rightarrow> if v = 0 then 1 else v);
          unit = slice_m1 operation
      in if sign \<noteq> [] \<and> sign \<notin> {''+'', ''-'', ''/''} then Inl (InvalidSign operation)
         else (case (if sign = ''/'' \<and> unit \<noteq> [] then applyRounding baseDate unit
                     else Inr baseDate) of
                 Inl e \<Rightarrow> Inl e
               | Inr d \<Rightarrow>
                   if sign = ''+'' \<or> sign = ''-'' then Inr (applyAdjustment d sign val unit)
                   else Inr d))"

fun apply_operations :: "int \<Rightarrow> string list \<Rightarrow> error + int" where
  "apply_operations baseDate [] = Inr baseDate"
| "apply_operations baseDate (operation # ops) =
     (case apply_operation baseDate operation of
        Inl e \<Rightarrow> Inl e
      | Inr d \<Rightarrow> apply_operations d ops)"

text \<open>
  \<open>parse now datestring\<close>: \<open>now\<close> is the value \<^verbatim>\<open>new Date()\<close> reads from the clock, the
  reference instant.
\<close>

definition parse :: "int \<Rightarrow> string \<Rightarrow> error + int" where
  "parse now datestring =
     (if take 3 datestring \<noteq> ''now'' then Inl MissingPrefix
      else apply_operations now (match_all (drop 3 datestring)))"

subsection \<open>\<^verbatim>\<open>stringify\<close>\<close>

text \<open>
  \<^verbatim>\<open>a % b\<close> on integers: the remainder of the division that truncates towards zero, with
  the sign of \<open>a\<close>.
\<close>

definition js_rem :: "int \<Rightarrow> int \<Rightarrow> int" where
  "js_rem a b = (if a < 0 then - ((- a) mod \<bar>b\<bar>) else a mod \<bar>b\<bar>)"

text \<open>
  \<^verbatim>\<open>convertToDateOnly\<close> takes the date part \<^verbatim>\<open>YYYY-MM-DD\<close> of \<^verbatim>\<open>toISOString()\<close>, which
  holds the UTC year, month and date, and reads it back with \<^verbatim>\<open>new Date\<close>, which gives
  midnight UTC of that calendar date. Its argument is the \<^verbatim>\<open>Date\<close> object \<^verbatim>\<open>nowUTC\<close>,
  so the branch that throws is never taken.
\<close>

definition convertToDateOnly :: "int \<Rightarrow> int" where
  "convertToDateOnly d =
     MakeDate (MakeDay (YearFromTime d) (MonthFromTime d) (DateFromTime d)) (MakeTime 0 0 0 0)"

definition msInSecond :: int where "msInSecond = 1000"
definition msInMinute :: int where "msInMinute = msInSecond * 60"
definition msInHour :: int where "msInHour = msInMinute * 60"
definition msInDay :: int where "msInDay = msInHour * 24"
definition msInWeek :: int where "msInWeek = msInDay * 7"
definition msInMonth :: int where "msInMonth = msInDay * 30"
definition msInYear :: int where "msInYear = msInDay * 365"

text \<open>The six alignment checks, in the order of the \<^verbatim>\<open>if\<close> statements.\<close>

definition year_aligned :: "int \<Rightarrow> bool" where
  "year_aligned date =
     (getUTCMonth date = 0 \<and> getUTCDate date = 1 \<and> getUTCHours date = 0 \<and>
      getUTCMinutes date = 0 \<and> getUTCSeconds date = 0 \<and> getUTCMilliseconds date = 0)"

definition month_aligned :: "int \<Rightarrow> bool" where
  "month_aligned date =
     (getUTCDate date = 1 \<and> getUTCHours date = 0 \<and> getUTCMinutes date = 0 \<and>
      getUTCSeconds date = 0 \<and> getUTCMilliseconds date = 0)"

definition week_aligned :: "int \<Rightarrow> bool" where
  "week_aligned date =
     (getUTCDay date = 0 \<and> getUTCHours date = 0 \<and> getUTCMinutes date = 0 \<and>
      getUTCSeconds date = 0 \<and> getUTCMilliseconds date = 0)"

definition day_aligned :: "int \<Rightarrow> bool" where
  "day_aligned date =
     (getUTCHours date = 0 \<and> getUTCMinutes date = 0 \<and> getUTCSeconds date = 0 \<and>
      getUTCMilliseconds date = 0)"

definition hour_aligned :: "int \<Rightarrow> bool" where
  "hour_aligned date =
     (getUTCMinutes date = 0 \<and> getUTCSeconds date = 0 \<and> getUTCMilliseconds date = 0)"

definition minute_aligned :: "int \<Rightarrow> bool" where
  "minute_aligned date = (getUTCSeconds date = 0 \<and> getUTCMilliseconds date = 0)"

text \<open>
  The table \<^verbatim>\<open>units\<close> and the body of \<^verbatim>\<open>units.forEach\<close>: the state is the pair of the
  variables \<^verbatim>\<open>timeDifference\<close> and \<^verbatim>\<open>result\<close> the callback updates.
\<close>

definition units :: "(string \<times> int) list" where
  "units =
     [(''y'', msInYear), (''M'', msInMonth), (''w'', msInWeek), (''d'', msInDay),
      (''h'', msInHour), (''m'', msInMinute), (''s'', msInSecond)]"

definition unit_step :: "string \<Rightarrow> int \<times> string \<Rightarrow> string \<times> int \<Rightarrow> int \<times> string" where
  "unit_step sign st u =
     (let timeDifference = fst st; result = snd st; label = fst u; duration = snd u;
          val = timeDifference div duration
      in (js_rem timeDifference duration,
          if val > 0 then result @ sign @ num_str val @ label else result))"

text \<open>
  \<open>stringify nowUTC date\<close>: \<open>nowUTC\<close> is the value \<^verbatim>\<open>Date.now()\<close> reads from the clock, the
  reference instant. \<^verbatim>\<open>Math.floor(a / b)\<close> on integers with \<open>b > 0\<close> is \<open>a div b\<close>. The last
  statement before the \<^verbatim>\<open>return\<close>, which assigns \<^verbatim>\<open>"now"\<close> to a \<^verbatim>\<open>result\<close> that is
  \<^verbatim>\<open>"now"\<close>, changes nothing and has no counterpart here.
\<close>

definition stringify :: "int \<Rightarrow> int \<Rightarrow> string" where
  "stringify nowUTC date =
     (let result = ''now'';
          signedDifference = date - nowUTC;
          sign = (if signedDifference \<ge> 0 then ''+'' else ''-'');
          timeDifference = \<bar>signedDifference\<bar>
      in if year_aligned date then
           (let years = getUTCFullYear date - getUTCFullYear nowUTC
            in if years \<noteq> 0 then ''now'' @ sign @ num_str \<bar>years\<bar> @ ''y/y'' else ''now/y'')
         else if month_aligned date then
           (let months = (getUTCFullYear date - getUTCFullYear nowUTC) * 12
                           + getUTCMonth date - getUTCMonth nowUTC
            in if months \<noteq> 0 then ''now'' @ sign @ num_str \<bar>months\<bar> @ ''M'' else ''now/M'')
         else if week_aligned date then
           (let timeDifferences = date - convertToDateOnly nowUTC;
                msInDays = 24 * 60 * 60 * 1000;
                totalDaysDiffs = timeDifferences div msInDays;
                weeks = totalDaysDiffs div 7;
                daysExtra = js_rem totalDaysDiffs 7
            in if weeks \<noteq> 0 \<or> daysExtra \<noteq> 0
               then ''now'' @ sign @ num_str (weeks * 7 + daysExtra) @ ''d/w''
               else ''now/w'')
         else if day_aligned date then
           (let days = timeDifference div msInDay
            in if days \<noteq> 0 then ''now'' @ sign @ num_str days @ ''d'' else ''now/d'')
         else if hour_aligned date then
           (let hours = timeDifference div msInHour
            in if hours \<noteq> 0 then ''now'' @ sign @ num_str hours @ ''h'' else ''now/h'')
         else if minute_aligned date then
           (let minutes = timeDifference div msInMinute
            in if minutes \<noteq> 0 then ''now'' @ sign @ num_str minutes @ ''m'' else ''now/m'')
         else snd (foldl (unit_step sign) (timeDifference, result) units))"


section \<open>The specification's notions\<close>

text \<open>
  The fallback of \<open>stringify\<close> as the specification words it: the absolute difference is
  broken down greedily over the units year (365 days), month (30 days), week, day, hour,
  minute and second, each getting \<open>\<lfloor>remaining / unitMs\<rfloor>\<close>, whose contribution is then
  taken off the remainder; a component \<open>{sign}{value}{label}\<close> is written for each value
  greater than zero, with the one sign of the signed difference, and the text is \<open>now\<close>
  when every value is zero.
\<close>

definition spec_units :: "(string \<times> int) list" where
  "spec_units =
     [(''y'', 365 * 86400000), (''M'', 30 * 86400000), (''w'', 7 * 86400000),
      (''d'', 86400000), (''h'', 3600000), (''m'', 60000), (''s'', 1000)]"

fun breakdown :: "int \<Rightarrow> (string \<times> int) list \<Rightarrow> (string \<times> int) list" where
  "breakdown remaining [] = []"
| "breakdown remaining ((label, unitMs) # us) =
     (label, remaining div unitMs)
       # breakdown (remaining - (remaining div unitMs) * unitMs) us"

definition fallback_text :: "int \<Rightarrow> int \<Rightarrow> string" where
  "fallback_text reference target =
     (let difference = target - reference;
          sign = (if 0 \<le> difference then ''+'' else ''-'');
          components = filter (\<lambda>(label, v). 0 < v) (breakdown \<bar>difference\<bar> spec_units)
      in if components = [] then ''now''
         else ''now'' @ concat (map (\<lambda>(label, v). sign @ num_str v @ label) components))"

text \<open>None of the six alignment checks holds of the date: \<open>stringify\<close> takes its fallback.\<close>

definition unaligned :: "int \<Rightarrow> bool" where
  "unaligned date =
     (\<not> year_aligned date \<and> \<not> month_aligned date \<and> \<not> week_aligned date \<and>
      \<not> day_aligned date \<and> \<not> hour_aligned date \<and> \<not> minute_aligned date)"

text \<open>The length in milliseconds of the units that have a fixed one.\<close>

definition unit_ms :: "string \<Rightarrow> int" where
  "unit_ms u =
     (if u = ''s'' then 1000
      else if u = ''m'' then 60000
      else if u = ''h'' then 3600000
      else if u = ''d'' then 86400000
      else if u = ''w'' then 604800000
      else 0)"

text \<open>
  The calendar month of a time, counted from January of the year 0, and the number of
  calendar months in the units that are counted in months.
\<close>

definition month_index :: "int \<Rightarrow> int" where
  "month_index t = 12 * YearFromTime t + MonthFromTime t"

definition unit_months :: "string \<Rightarrow> int" where
  "unit_months u = (if u = ''M'' then 1 else if u = ''y'' then 12 else 0)"

text \<open>The number of days of the calendar month with the index \<open>k\<close>.\<close>

definition month_days :: "int \<Rightarrow> int" where
  "month_days k = DaysInMonth (k mod 12) (if DaysInYear (k div 12) = 366 then 1 else 0)"

lemma Date_UTC_reference: "Date_UTC 2020 5 12 13 20 17 486 = 1591968017486"
  by (simp add: Date_UTC_def MakeDate_def MakeDay_def MakeTime_def DayFromYear_def
      DaysInYear_def MonthStart_def)

section \<open>Facts about the calendar\<close>

subsection \<open>Years\<close>

lemma DaysInYear_cases: "DaysInYear y = 365 \<or> DaysInYear y = 366"
  by (simp add: DaysInYear_def)

lemma div_step:
  fixes a n :: int
  assumes "0 < n"
  shows "(a + 1) div n = a div n + (if (a + 1) mod n = 0 then 1 else 0)"
proof -
  have e: "n * (a div n) + a mod n = a"
    by (rule mult_div_mod_eq)
  have d: "n * (a div n + 1) = n * (a div n) + n"
    by (simp add: algebra_simps)
  show ?thesis
  proof (cases "a mod n + 1 = n")
    case True
    have eq: "a + 1 = n * (a div n + 1) + 0"
      using True e d by linarith
    have "(a + 1) div n = a div n + 1"
      using assms by (intro int_div_pos_eq [OF eq]) simp_all
    moreover have "(a + 1) mod n = 0"
      using assms by (intro int_mod_pos_eq [OF eq]) simp_all
    ultimately show ?thesis by simp
  next
    case False
    have r: "0 \<le> a mod n + 1" "a mod n + 1 < n"
      using False pos_mod_bound [OF assms, of a] pos_mod_sign [OF assms, of a] by linarith+
    have eq: "a + 1 = n * (a div n) + (a mod n + 1)"
      using e by linarith
    have "(a + 1) div n = a div n"
      by (rule int_div_pos_eq [OF eq r])
    moreover have "(a + 1) mod n = a mod n + 1"
      by (rule int_mod_pos_eq [OF eq r])
    moreover have "a mod n + 1 \<noteq> 0"
      using pos_mod_sign [OF assms, of a] by linarith
    ultimately show ?thesis by simp
  qed
qed

lemma mod_shift: "(y - n * k) mod n = y mod n" for y n k :: int
  using mod_mult_self2 [of y n "- k"] by simp

lemma div4_step: "(y - 1968) div 4 = (y - 1969) div 4 + (if y mod 4 = 0 then 1 else 0)" for y :: int
  using div_step [of 4 "y - 1969"] mod_shift [of y 4 492] by simp

lemma div100_step: "(y - 1900) div 100 = (y - 1901) div 100 + (if y mod 100 = 0 then 1 else 0)" for y :: int
  using div_step [of 100 "y - 1901"] mod_shift [of y 100 19] by simp

lemma div400_step: "(y - 1600) div 400 = (y - 1601) div 400 + (if y mod 400 = 0 then 1 else 0)" for y :: int
  using div_step [of 400 "y - 1601"] mod_shift [of y 400 4] by simp

lemma mod100_mod4: "y mod 100 = 0 \<Longrightarrow> y mod 4 = 0" for y :: int
  using mod_mod_cancel [of 4 100 y] by simp

lemma mod400_mod100: "y mod 400 = 0 \<Longrightarrow> y mod 100 = 0" for y :: int
  using mod_mod_cancel [of 100 400 y] by simp

lemma DayFromYear_step: "DayFromYear (y + 1) = DayFromYear y + DaysInYear y"
proof -
  have "DayFromYear (y + 1) =
      365 * (y - 1969) + (y - 1968) div 4 - (y - 1900) div 100 + (y - 1600) div 400"
    by (simp add: DayFromYear_def)
  then show ?thesis
    using mod100_mod4 [of y] mod400_mod100 [of y]
    by (auto simp: div4_step div100_step div400_step DayFromYear_def DaysInYear_def)
qed

lemma DayFromYear_less_step: "DayFromYear y < DayFromYear (y + 1)"
  using DaysInYear_cases [of y] by (auto simp: DayFromYear_step)

lemma DayFromYear_mono_nat: "DayFromYear y \<le> DayFromYear (y + int n)"
proof (induction n)
  case 0
  show ?case by simp
next
  case (Suc n)
  have "DayFromYear (y + int n) < DayFromYear ((y + int n) + 1)"
    by (rule DayFromYear_less_step)
  with Suc show ?case by (simp add: ac_simps)
qed

lemma DayFromYear_mono: "y \<le> z \<Longrightarrow> DayFromYear y \<le> DayFromYear z"
  using DayFromYear_mono_nat [of y "nat (z - y)"] by simp

lemma DayFromYear_strict: "y < z \<Longrightarrow> DayFromYear y < DayFromYear z"
  using DayFromYear_mono [of "y + 1" z] DayFromYear_less_step [of y] by simp


lemma div_bounds:
  fixes a n :: int
  assumes "0 < n"
  shows "n * (a div n) \<le> a" and "a < n * (a div n) + n"
proof -
  have e: "n * (a div n) + a mod n = a"
    by (rule mult_div_mod_eq)
  show "n * (a div n) \<le> a"
    using e pos_mod_sign [OF assms, of a] by linarith
  show "a < n * (a div n) + n"
    using e pos_mod_bound [OF assms, of a] by linarith
qed

lemma DayFromYear_upper_bound: "400 * DayFromYear (1970 + k) \<le> 146097 * k + 589"
proof -
  have "4 * ((k + 1) div 4) \<le> k + 1" "k + 69 < 100 * ((k + 69) div 100) + 100"
    "400 * ((k + 369) div 400) \<le> k + 369"
    using div_bounds [of 4 "k + 1"] div_bounds [of 100 "k + 69"] div_bounds [of 400 "k + 369"]
    by simp_all
  then show ?thesis
    by (simp add: DayFromYear_def)
qed

lemma DayFromYear_lower_bound: "146097 * k - 506 \<le> 400 * DayFromYear (1970 + k)"
proof -
  have "k + 1 < 4 * ((k + 1) div 4) + 4" "100 * ((k + 69) div 100) \<le> k + 69"
    "k + 369 < 400 * ((k + 369) div 400) + 400"
    using div_bounds [of 4 "k + 1"] div_bounds [of 100 "k + 69"] div_bounds [of 400 "k + 369"]
    by simp_all
  then show ?thesis
    by (simp add: DayFromYear_def)
qed

lemma year_estimate:
  fixes d :: int
  defines "k \<equiv> (400 * d) div 146097"
  shows "DayFromYear (1970 + k - 1) \<le> d" and "d < DayFromYear (1970 + k + 2)"
proof -
  have k: "146097 * k \<le> 400 * d" "400 * d < 146097 * k + 146097"
    using div_bounds [of 146097 "400 * d"] by (simp_all add: k_def)
  have "400 * DayFromYear (1970 + (k - 1)) \<le> 146097 * (k - 1) + 589"
    by (rule DayFromYear_upper_bound)
  then have "400 * DayFromYear (1970 + k - 1) \<le> 146097 * k - 145508"
    by (simp add: algebra_simps)
  then show "DayFromYear (1970 + k - 1) \<le> d"
    using k(1) by linarith
  have "146097 * (k + 2) - 506 \<le> 400 * DayFromYear (1970 + (k + 2))"
    by (rule DayFromYear_lower_bound)
  then have "146097 * k + 291688 \<le> 400 * DayFromYear (1970 + k + 2)"
    by (simp add: algebra_simps)
  then show "d < DayFromYear (1970 + k + 2)"
    using k(2) by linarith
qed

lemma YearFromTime_lower: "DayFromYear (YearFromTime t) \<le> Day t"
  using year_estimate(1) [of "Day t"] by (simp add: YearFromTime_def Let_def)

lemma YearFromTime_upper: "Day t < DayFromYear (YearFromTime t + 1)"
  using year_estimate(2) [of "Day t"] by (simp add: YearFromTime_def Let_def)

lemma YearFromTime_unique:
  assumes "DayFromYear y \<le> Day t" and "Day t < DayFromYear (y + 1)"
  shows "YearFromTime t = y"
proof (rule ccontr)
  assume "YearFromTime t \<noteq> y"
  then consider "YearFromTime t + 1 \<le> y" | "y + 1 \<le> YearFromTime t"
    by linarith
  then show False
  proof cases
    case 1
    then have "DayFromYear (YearFromTime t + 1) \<le> DayFromYear y"
      by (rule DayFromYear_mono)
    with assms(1) YearFromTime_upper [of t] show False by linarith
  next
    case 2
    then have "DayFromYear (y + 1) \<le> DayFromYear (YearFromTime t)"
      by (rule DayFromYear_mono)
    with assms(2) YearFromTime_lower [of t] show False by linarith
  qed
qed

text \<open>The specification of ECMA-262: the largest year that starts at or before \<open>t\<close>.\<close>

lemma YearFromTime_spec:
  "TimeFromYear (YearFromTime t) \<le> t \<and> (\<forall>y. TimeFromYear y \<le> t \<longrightarrow> y \<le> YearFromTime t)"
proof -
  have a: "TimeFromYear y \<le> t \<longleftrightarrow> DayFromYear y \<le> Day t" for y
    unfolding TimeFromYear_def Day_def msPerDay_def
    using div_bounds [of 86400000 t] by (auto simp: algebra_simps)
  show ?thesis
  proof (intro conjI allI impI)
    show "TimeFromYear (YearFromTime t) \<le> t"
      by (simp add: a YearFromTime_lower)
  next
    fix y assume "TimeFromYear y \<le> t"
    then have "DayFromYear y \<le> Day t" by (simp add: a)
    then have "DayFromYear y < DayFromYear (YearFromTime t + 1)"
      using YearFromTime_upper [of t] by linarith
    then show "y \<le> YearFromTime t"
      using DayFromYear_mono [of "YearFromTime t + 1" y] by linarith
  qed
qed

subsection \<open>Days, months and dates\<close>

lemma InLeapYear_cases: "InLeapYear t = 0 \<or> InLeapYear t = 1"
  by (simp add: InLeapYear_def)

lemma DayWithinYear_lower: "0 \<le> DayWithinYear t"
  using YearFromTime_lower [of t] by (simp add: DayWithinYear_def)

lemma DayWithinYear_upper: "DayWithinYear t < 365 + InLeapYear t"
  using YearFromTime_upper [of t] DaysInYear_cases [of "YearFromTime t"]
  by (auto simp: DayWithinYear_def InLeapYear_def DayFromYear_step)

lemma MonthOfDay_range: "0 \<le> MonthOfDay d l \<and> MonthOfDay d l < 12"
  by (simp add: MonthOfDay_def)

lemma MonthFromTime_range: "0 \<le> MonthFromTime t" "MonthFromTime t < 12"
  using MonthOfDay_range [of "DayWithinYear t" "InLeapYear t"]
  by (simp_all add: MonthFromTime_def)

lemma month_cases:
  fixes m :: int
  assumes "0 \<le> m" "m < 12"
  obtains "m = 0" | "m = 1" | "m = 2" | "m = 3" | "m = 4" | "m = 5" | "m = 6"
    | "m = 7" | "m = 8" | "m = 9" | "m = 10" | "m = 11"
proof -
  have "m = 0 \<or> m = 1 \<or> m = 2 \<or> m = 3 \<or> m = 4 \<or> m = 5 \<or> m = 6
      \<or> m = 7 \<or> m = 8 \<or> m = 9 \<or> m = 10 \<or> m = 11"
    using assms by presburger
  then show thesis
    using that by blast
qed

lemma DateFromTime_lower: "1 \<le> DateFromTime t"
  using DayWithinYear_lower [of t] InLeapYear_cases [of t]
  by (auto simp: DateFromTime_def MonthFromTime_def MonthOfDay_def MonthStart_def)

text \<open>
  The calendar fields of a time determine its day: this is what makes a setter that
  writes one field back, shifted, a shift of the time.
\<close>

lemma MakeDay_fields:
  "MakeDay (YearFromTime t) (MonthFromTime t) (DateFromTime t + k) = Day t + k"
proof -
  have "MonthFromTime t div 12 = 0" "MonthFromTime t mod 12 = MonthFromTime t"
    using MonthFromTime_range [of t] by simp_all
  then show ?thesis
    by (simp add: MakeDay_def Let_def DateFromTime_def DayWithinYear_def InLeapYear_def)
qed

lemma MonthOfDay_MonthStart:
  assumes "0 \<le> m" "m < 12" "1 \<le> dt" "dt \<le> DaysInMonth m l" "l = 0 \<or> l = 1"
  shows "MonthOfDay (MonthStart m l + dt - 1) l = m"
  using assms(1,2)
proof (cases m rule: month_cases)
qed (use assms(3-5) in \<open>auto simp: MonthOfDay_def MonthStart_def DaysInMonth_def\<close>)

lemma MonthStart_upper:
  assumes "0 \<le> m" "m < 12" "l = 0 \<or> l = 1"
  shows "0 \<le> MonthStart m l" "MonthStart m l + DaysInMonth m l \<le> 365 + l"
  using assms(1,2)
proof (cases m rule: month_cases)
qed (use assms(3) in \<open>auto simp: MonthStart_def DaysInMonth_def\<close>)

lemma DaysInMonth_lower: "l = 0 \<or> l = 1 \<Longrightarrow> 28 \<le> DaysInMonth m l"
  by (auto simp: DaysInMonth_def)

lemma DateFromTime_upper: "DateFromTime t \<le> DaysInMonth (MonthFromTime t) (InLeapYear t)"
  using DayWithinYear_upper [of t] InLeapYear_cases [of t]
  by (auto simp: DateFromTime_def MonthFromTime_def MonthOfDay_def MonthStart_def
      DaysInMonth_def)

text \<open>
  The time \<open>MakeDay\<close> builds has the fields it was built from, for a date that the
  month has. With \<open>dt = 1\<close> this is the time ECMA-262 asks \<open>MakeDay\<close> to find.
\<close>

lemma MakeDay_year:
  assumes "1 \<le> dt"
    and "dt \<le> DaysInMonth (m mod 12) (if DaysInYear (y + m div 12) = 366 then 1 else 0)"
    and "Day t = MakeDay y m dt"
  shows "YearFromTime t = y + m div 12"
proof (rule YearFromTime_unique)
  let ?ym = "y + m div 12"
  let ?l = "if DaysInYear ?ym = 366 then 1 else 0 :: int"
  have m: "0 \<le> m mod 12" "m mod 12 < 12" by simp_all
  have l: "?l = 0 \<or> ?l = 1" by simp
  have d: "Day t = DayFromYear ?ym + MonthStart (m mod 12) ?l + dt - 1"
    using assms(3) by (simp add: MakeDay_def Let_def)
  show "DayFromYear ?ym \<le> Day t"
    using d MonthStart_upper(1) [OF m l] assms(1) by linarith
  have "DaysInYear ?ym = 365 + ?l"
    using DaysInYear_cases [of ?ym] by auto
  then show "Day t < DayFromYear (?ym + 1)"
    using d MonthStart_upper(2) [OF m l] assms(2) by (simp add: DayFromYear_step)
qed

lemma MakeDay_month:
  assumes "1 \<le> dt"
    and "dt \<le> DaysInMonth (m mod 12) (if DaysInYear (y + m div 12) = 366 then 1 else 0)"
    and "Day t = MakeDay y m dt"
  shows "MonthFromTime t = m mod 12"
proof -
  let ?ym = "y + m div 12"
  let ?l = "if DaysInYear ?ym = 366 then 1 else 0 :: int"
  have y: "YearFromTime t = ?ym" by (rule MakeDay_year [OF assms])
  have "DayWithinYear t = MonthStart (m mod 12) ?l + dt - 1"
    using assms(3) by (simp add: DayWithinYear_def y MakeDay_def Let_def)
  moreover have "InLeapYear t = ?l" by (simp add: InLeapYear_def y)
  ultimately show ?thesis
    using MonthOfDay_MonthStart [of "m mod 12" dt ?l] assms(1,2)
    by (simp add: MonthFromTime_def)
qed

lemma MakeDay_date:
  assumes "1 \<le> dt"
    and "dt \<le> DaysInMonth (m mod 12) (if DaysInYear (y + m div 12) = 366 then 1 else 0)"
    and "Day t = MakeDay y m dt"
  shows "DateFromTime t = dt"
proof -
  let ?ym = "y + m div 12"
  let ?l = "if DaysInYear ?ym = 366 then 1 else 0 :: int"
  have y: "YearFromTime t = ?ym" by (rule MakeDay_year [OF assms])
  have "DayWithinYear t = MonthStart (m mod 12) ?l + dt - 1"
    using assms(3) by (simp add: DayWithinYear_def y MakeDay_def Let_def)
  moreover have "InLeapYear t = ?l" by (simp add: InLeapYear_def y)
  ultimately show ?thesis
    by (simp add: DateFromTime_def MakeDay_month [OF assms])
qed

lemma MakeDay_first:
  "YearFromTime (MakeDate (MakeDay y m 1) 0) = y + m div 12 \<and>
   MonthFromTime (MakeDate (MakeDay y m 1) 0) = m mod 12 \<and>
   DateFromTime (MakeDate (MakeDay y m 1) 0) = 1"
proof -
  have d: "Day (MakeDate (MakeDay y m 1) 0) = MakeDay y m 1"
    by (simp add: Day_def MakeDate_def)
  have one: "(1 :: int) \<le> 1"
    "1 \<le> DaysInMonth (m mod 12) (if DaysInYear (y + m div 12) = 366 then 1 else 0)"
    by (simp_all add: DaysInMonth_def)
  show ?thesis
    using MakeDay_year [OF one d] MakeDay_month [OF one d] MakeDay_date [OF one d]
    by simp
qed

subsection \<open>The time within the day\<close>

lemma Day_MakeDate:
  assumes "0 \<le> tm" "tm < msPerDay"
  shows "Day (MakeDate d tm) = d" and "TimeWithinDay (MakeDate d tm) = tm"
proof -
  have eq: "MakeDate d tm = msPerDay * d + tm"
    by (simp add: MakeDate_def)
  show "Day (MakeDate d tm) = d"
    unfolding Day_def by (rule int_div_pos_eq [OF eq assms])
  show "TimeWithinDay (MakeDate d tm) = tm"
    unfolding TimeWithinDay_def by (rule int_mod_pos_eq [OF eq assms])
qed

lemma MakeDate_Day: "MakeDate (Day t) (TimeWithinDay t) = t"
  by (simp add: MakeDate_def Day_def TimeWithinDay_def)

lemma TimeWithinDay_range: "0 \<le> TimeWithinDay t" "TimeWithinDay t < msPerDay"
  by (simp_all add: TimeWithinDay_def)

lemma TimeWithinDay_fields:
  "TimeWithinDay t =
     MakeTime (HourFromTime t) (MinFromTime t) (SecFromTime t) (msFromTime t)"
proof -
  have a: "t mod (1000 * 60) = 1000 * (t div 1000 mod 60) + t mod 1000"
    by (rule zmod_zmult2_eq) simp
  have b: "t mod (60000 * 60) = 60000 * (t div 60000 mod 60) + t mod 60000"
    by (rule zmod_zmult2_eq) simp
  have c: "t mod (3600000 * 24) = 3600000 * (t div 3600000 mod 24) + t mod 3600000"
    by (rule zmod_zmult2_eq) simp
  from a b c show ?thesis
    by (simp add: TimeWithinDay_def MakeTime_def HourFromTime_def MinFromTime_def
        SecFromTime_def msFromTime_def)
qed

lemma hour_fields:
  "t mod msPerHour = MinFromTime t * msPerMinute + SecFromTime t * msPerSecond + msFromTime t"
proof -
  have a: "t mod (1000 * 60) = 1000 * (t div 1000 mod 60) + t mod 1000"
    by (rule zmod_zmult2_eq) simp
  have b: "t mod (60000 * 60) = 60000 * (t div 60000 mod 60) + t mod 60000"
    by (rule zmod_zmult2_eq) simp
  from a b show ?thesis
    by (simp add: MinFromTime_def SecFromTime_def msFromTime_def)
qed

lemma minute_fields: "t mod msPerMinute = SecFromTime t * msPerSecond + msFromTime t"
proof -
  have a: "t mod (1000 * 60) = 1000 * (t div 1000 mod 60) + t mod 1000"
    by (rule zmod_zmult2_eq) simp
  from a show ?thesis
    by (simp add: SecFromTime_def msFromTime_def)
qed

text \<open>What the setters do to the time value, for the calls the program makes.\<close>

lemma setUTCDate_shift: "setUTCDate t (getUTCDate t + k) = t + k * msPerDay"
proof -
  have "setUTCDate t (getUTCDate t + k) = MakeDate (Day t + k) (TimeWithinDay t)"
    by (simp only: setUTCDate_def getUTCDate_def MakeDay_fields)
  also have "\<dots> = MakeDate (Day t) (TimeWithinDay t) + k * msPerDay"
    by (simp add: MakeDate_def algebra_simps)
  finally show ?thesis by (simp only: MakeDate_Day)
qed

lemma setUTCHours_shift: "setUTCHours t (getUTCHours t + k) None None None = t + k * msPerHour"
proof -
  have "setUTCHours t (getUTCHours t + k) None None None =
      MakeDate (Day t) (TimeWithinDay t + k * msPerHour)"
    by (simp add: setUTCHours_def getUTCHours_def TimeWithinDay_fields MakeTime_def algebra_simps)
  also have "\<dots> = MakeDate (Day t) (TimeWithinDay t) + k * msPerHour"
    by (simp add: MakeDate_def)
  finally show ?thesis by (simp only: MakeDate_Day)
qed

lemma setUTCMinutes_shift: "setUTCMinutes t (getUTCMinutes t + k) None None = t + k * msPerMinute"
proof -
  have "setUTCMinutes t (getUTCMinutes t + k) None None =
      MakeDate (Day t) (TimeWithinDay t + k * msPerMinute)"
    by (simp add: setUTCMinutes_def getUTCMinutes_def TimeWithinDay_fields MakeTime_def
        algebra_simps)
  also have "\<dots> = MakeDate (Day t) (TimeWithinDay t) + k * msPerMinute"
    by (simp add: MakeDate_def)
  finally show ?thesis by (simp only: MakeDate_Day)
qed

lemma setUTCSeconds_shift: "setUTCSeconds t (getUTCSeconds t + k) None = t + k * msPerSecond"
proof -
  have "setUTCSeconds t (getUTCSeconds t + k) None =
      MakeDate (Day t) (TimeWithinDay t + k * msPerSecond)"
    by (simp add: setUTCSeconds_def getUTCSeconds_def TimeWithinDay_fields MakeTime_def
        algebra_simps)
  also have "\<dots> = MakeDate (Day t) (TimeWithinDay t) + k * msPerSecond"
    by (simp add: MakeDate_def)
  finally show ?thesis by (simp only: MakeDate_Day)
qed

lemma setUTCHours_zero: "setUTCHours t 0 (Some 0) (Some 0) (Some 0) = t - t mod msPerDay"
  using MakeDate_Day [of t]
  by (simp add: setUTCHours_def MakeTime_def MakeDate_def TimeWithinDay_def)

lemma setUTCMinutes_zero: "setUTCMinutes t 0 (Some 0) (Some 0) = t - t mod msPerHour"
proof -
  have "t = MakeDate (Day t) (TimeWithinDay t)"
    by (simp only: MakeDate_Day)
  also have "\<dots> = MakeDate (Day t) (MakeTime (HourFromTime t) 0 0 0) + t mod msPerHour"
    using hour_fields [of t] by (simp add: TimeWithinDay_fields MakeTime_def MakeDate_def)
  finally show ?thesis
    by (simp add: setUTCMinutes_def)
qed

lemma setUTCSeconds_zero: "setUTCSeconds t 0 (Some 0) = t - t mod msPerMinute"
proof -
  have "t = MakeDate (Day t) (TimeWithinDay t)"
    by (simp only: MakeDate_Day)
  also have "\<dots> =
      MakeDate (Day t) (MakeTime (HourFromTime t) (MinFromTime t) 0 0) + t mod msPerMinute"
    using minute_fields [of t] by (simp add: TimeWithinDay_fields MakeTime_def MakeDate_def)
  finally show ?thesis
    by (simp add: setUTCSeconds_def)
qed

lemma setUTCMilliseconds_zero: "setUTCMilliseconds t 0 = t - t mod msPerSecond"
proof -
  have "t = MakeDate (Day t) (TimeWithinDay t)"
    by (simp only: MakeDate_Day)
  also have "\<dots> =
      MakeDate (Day t) (MakeTime (HourFromTime t) (MinFromTime t) (SecFromTime t) 0)
        + t mod msPerSecond"
    by (simp add: TimeWithinDay_fields MakeTime_def MakeDate_def msFromTime_def)
  finally show ?thesis
    by (simp add: setUTCMilliseconds_def)
qed

section \<open>Facts about the operation pattern\<close>

lemma not_digit_unit: "is_unit u \<Longrightarrow> \<not> is_digit u"
  by (auto simp: is_unit_def is_digit_def)

lemma takeWhile_digits:
  assumes "\<forall>c\<in>set ds. is_digit c" "\<not> is_digit u"
  shows "takeWhile is_digit (ds @ u # r) = ds" "dropWhile is_digit (ds @ u # r) = u # r"
  using assms by simp_all

text \<open>The forms of a match: digits and a unit, with a sign or without one, or a rounding.\<close>

lemma digits_unit_at_iff:
  "digits_unit_at s = Some (tok, r) \<longleftrightarrow>
     (\<exists>ds u. s = ds @ u # r \<and> tok = ds @ [u] \<and> ds \<noteq> [] \<and> (\<forall>c\<in>set ds. is_digit c) \<and> is_unit u)"
proof
  assume a: "digits_unit_at s = Some (tok, r)"
  have s: "s = takeWhile is_digit s @ dropWhile is_digit s"
    by simp
  from a obtain u where u: "dropWhile is_digit s = u # r" "tok = takeWhile is_digit s @ [u]"
      "takeWhile is_digit s \<noteq> []" "is_unit u"
    by (auto simp: digits_unit_at_def Let_def split: list.splits if_splits)
  have "\<forall>c\<in>set (takeWhile is_digit s). is_digit c"
    by (auto dest: set_takeWhileD)
  with s u show "\<exists>ds u. s = ds @ u # r \<and> tok = ds @ [u] \<and> ds \<noteq> [] \<and>
      (\<forall>c\<in>set ds. is_digit c) \<and> is_unit u"
    by metis
next
  assume "\<exists>ds u. s = ds @ u # r \<and> tok = ds @ [u] \<and> ds \<noteq> [] \<and>
      (\<forall>c\<in>set ds. is_digit c) \<and> is_unit u"
  then obtain ds u where *: "s = ds @ u # r" "tok = ds @ [u]" "ds \<noteq> []"
      "\<forall>c\<in>set ds. is_digit c" "is_unit u"
    by blast
  then show "digits_unit_at s = Some (tok, r)"
    using takeWhile_digits [OF *(4) not_digit_unit [OF *(5)], of r]
    by (simp add: digits_unit_at_def Let_def)
qed

lemma digits_unit_at_sign: "c = CHR ''+'' \<or> c = CHR ''-'' \<or> c = CHR ''/'' \<Longrightarrow> digits_unit_at (c # cs) = None"
  by (auto simp: digits_unit_at_def is_digit_def)

lemma digits_unit_at_append:
  "digits_unit_at s = Some (tok, r) \<Longrightarrow> digits_unit_at (tok @ s') = Some (tok, s')"
  by (auto simp: digits_unit_at_iff)

lemma number_at_append:
  assumes "number_at s = Some (tok, r)"
  shows "number_at (tok @ s') = Some (tok, s')"
proof (cases s)
  case Nil
  with assms show ?thesis by (simp add: number_at_def)
next
  case (Cons c cs)
  show ?thesis
  proof (cases "c = CHR ''+'' \<or> c = CHR ''-''")
    case True
    then have "digits_unit_at s = None"
      unfolding Cons by (intro digits_unit_at_sign) auto
    with assms Cons True obtain tok' where t: "digits_unit_at cs = Some (tok', r)" "tok = c # tok'"
      by (auto simp: number_at_def split: option.splits)
    from t(1) have "digits_unit_at (tok' @ s') = Some (tok', s')"
      by (rule digits_unit_at_append)
    with True t(2) show ?thesis
      by (simp add: number_at_def)
  next
    case False
    with assms Cons have d: "digits_unit_at s = Some (tok, r)"
      by (simp add: number_at_def)
    then obtain tl' where tok: "tok = c # tl'"
      using Cons digits_unit_at_split [of s tok r] by (cases tok) auto
    from d have "digits_unit_at (tok @ s') = Some (tok, s')"
      by (rule digits_unit_at_append)
    with False tok show ?thesis
      by (simp add: number_at_def)
  qed
qed

lemma rounding_at_append:
  "rounding_at s = Some (tok, r) \<Longrightarrow> rounding_at (tok @ s') = Some (tok, s')"
  by (auto simp: rounding_at_def split: list.splits if_splits)

lemma rounding_at_hd: "rounding_at s = Some (tok, r) \<Longrightarrow> \<exists>u. tok = [CHR ''/'', u] \<and> is_unit u"
  by (auto simp: rounding_at_def split: list.splits if_splits)

lemma number_at_slash: "number_at (CHR ''/'' # cs) = None"
  by (simp add: number_at_def digits_unit_at_sign)

text \<open>A match is matched again whatever follows it.\<close>

lemma regex_at_append:
  assumes "regex_at s = Some (tok, r)"
  shows "regex_at (tok @ s') = Some (tok, s')"
proof (cases "number_at s")
  case None
  with assms have r: "rounding_at s = Some (tok, r)"
    by (simp add: regex_at_def)
  then obtain u where "tok = [CHR ''/'', u]"
    using rounding_at_hd by blast
  then have "number_at (tok @ s') = None"
    by (simp add: number_at_slash)
  with rounding_at_append [OF r, of s'] show ?thesis
    by (simp add: regex_at_def)
next
  case (Some m)
  with assms have "number_at s = Some (tok, r)"
    by (simp add: regex_at_def)
  then have "number_at (tok @ s') = Some (tok, s')"
    by (rule number_at_append)
  then show ?thesis
    by (simp add: regex_at_def)
qed

lemma match_all_token:
  assumes "regex_at s = Some (tok, r)"
  shows "match_all (tok @ s') = tok # match_all s'"
proof -
  have "tok \<noteq> []"
    using assms by (auto dest: regex_at_split)
  then show ?thesis
    using regex_at_append [OF assms, of s'] by (subst match_all.simps) simp
qed

text \<open>The matches, written one after the other, are matched as they are.\<close>

lemma match_all_concat: "match_all (concat (match_all s)) = match_all s"
proof (induction s rule: match_all.induct)
  case (1 s)
  show ?case
  proof (cases "s = []")
    case True
    then show ?thesis by simp
  next
    case False
    show ?thesis
    proof (cases "regex_at s")
      case None
      with False have "match_all s = match_all (tl s)"
        by (subst match_all.simps) simp
      with "1.IH"(1) [OF False None] show ?thesis by simp
    next
      case (Some m)
      obtain tok r where m: "m = (tok, r)" by (cases m)
      with False Some have e: "match_all s = tok # match_all r"
        by (subst match_all.simps) simp
      have "match_all (tok @ concat (match_all r)) = tok # match_all (concat (match_all r))"
        using Some m by (intro match_all_token) simp
      with "1.IH"(2) [OF False Some [unfolded m] refl] e show ?thesis by simp
    qed
  qed
qed

section \<open>Facts about \<^verbatim>\<open>parse\<close>\<close>

lemma unit_strings: "is_unit u \<longleftrightarrow> [u] \<in> {''d'', ''M'', ''y'', ''h'', ''m'', ''s'', ''w''}"
  by (auto simp: is_unit_def)

lemma applyRounding_unit: "is_unit u \<Longrightarrow> \<exists>d. applyRounding date [u] = Inr d"
  by (auto simp: applyRounding_def Let_def unit_strings)

text \<open>What the callback does, by the first character of the token.\<close>

lemma apply_operation_rounding:
  "apply_operation date [CHR ''/'', u] = applyRounding date [u]"
  by (auto simp: apply_operation_def slice_m1_def slice_1_m1_def parseInt_def Let_def
      split: sum.splits)

lemma apply_operation_adjust:
  assumes "c = CHR ''+'' \<or> c = CHR ''-''" "ds \<noteq> []"
  shows "apply_operation date (c # ds @ [u]) =
     Inr (applyAdjustment date [c]
            (case parseInt ds of None \<Rightarrow> 1 | Some v \<Rightarrow> if v = 0 then 1 else v) [u])"
  using assms by (auto simp: apply_operation_def slice_m1_def slice_1_m1_def Let_def butlast_append)

lemma apply_operation_invalid:
  assumes "tok \<noteq> []" "hd tok \<notin> set ''+-/''"
  shows "apply_operation date tok = Inl (InvalidSign tok)"
  using assms by (cases tok) (auto simp: apply_operation_def Let_def)

lemma regex_at_token_cases:
  assumes "regex_at s = Some (tok, r)"
  obtains (rounding) u where "tok = [CHR ''/'', u]" "is_unit u"
    | (adjust) c ds u where "tok = c # ds @ [u]" "c = CHR ''+'' \<or> c = CHR ''-''" "ds \<noteq> []"
        "\<forall>x\<in>set ds. is_digit x" "is_unit u"
    | (unsigned) ds u where "tok = ds @ [u]" "ds \<noteq> []" "\<forall>x\<in>set ds. is_digit x" "is_unit u"
proof (cases "number_at s")
  case None
  with assms have "rounding_at s = Some (tok, r)"
    by (simp add: regex_at_def)
  then show thesis
    using rounding_at_hd rounding by blast
next
  case (Some m)
  with assms have n: "number_at s = Some (tok, r)"
    by (simp add: regex_at_def)
  then obtain c cs where s: "s = c # cs"
    by (cases s) (auto simp: number_at_def)
  show thesis
  proof (cases "c = CHR ''+'' \<or> c = CHR ''-''")
    case True
    then have "digits_unit_at s = None"
      unfolding s by (intro digits_unit_at_sign) auto
    with n s True obtain tok' where t: "digits_unit_at cs = Some (tok', r)" "tok = c # tok'"
      by (auto simp: number_at_def split: option.splits)
    from t(1) obtain ds u where "tok' = ds @ [u]" "ds \<noteq> []" "\<forall>x\<in>set ds. is_digit x" "is_unit u"
      unfolding digits_unit_at_iff by blast
    with t(2) True show thesis
      by (intro adjust [of c ds u]) simp_all
  next
    case False
    with n s have "digits_unit_at s = Some (tok, r)"
      by (simp add: number_at_def)
    then obtain ds u where "tok = ds @ [u]" "ds \<noteq> []" "\<forall>x\<in>set ds. is_digit x" "is_unit u"
      unfolding digits_unit_at_iff by blast
    then show thesis
      by (rule unsigned)
  qed
qed

text \<open>
  Every element of \<open>match_all s\<close> is a match of the pattern: it is what \<open>regex_at\<close>
  matches at the start of some text.
\<close>

lemma match_all_tokens: "tok \<in> set (match_all s) \<Longrightarrow> \<exists>s' r. regex_at s' = Some (tok, r)"
proof (induction s rule: match_all.induct)
  case (1 s)
  show ?case
  proof (cases "s = []")
    case True
    with "1.prems" show ?thesis by simp
  next
    case False
    show ?thesis
    proof (cases "regex_at s")
      case None
      with False have "match_all s = match_all (tl s)"
        by (subst match_all.simps) simp
      with "1.IH"(1) [OF False None] "1.prems" show ?thesis by simp
    next
      case (Some m)
      obtain t r where m: "m = (t, r)" by (cases m)
      with False Some have e: "match_all s = t # match_all r"
        by (subst match_all.simps) simp
      show ?thesis
      proof (cases "tok = t")
        case True
        with Some m show ?thesis by blast
      next
        case False
        with e "1.prems" have "tok \<in> set (match_all r)" by simp
        with "1.IH"(2) [OF \<open>s \<noteq> []\<close> Some [unfolded m] refl] show ?thesis by simp
      qed
    qed
  qed
qed

lemma apply_operation_token:
  assumes "regex_at s = Some (tok, r)"
  shows "if hd tok \<in> set ''+-/'' then \<exists>d. apply_operation date tok = Inr d
         else apply_operation date tok = Inl (InvalidSign tok)"
  using assms
proof (cases rule: regex_at_token_cases)
  case (rounding u)
  then show ?thesis
    using applyRounding_unit [of u date] by (simp add: apply_operation_rounding)
next
  case (adjust c ds u)
  then show ?thesis
    using apply_operation_adjust [of c ds date u] by auto
next
  case (unsigned ds u)
  then have "hd tok \<notin> set ''+-/''"
    by (cases ds) (auto simp: is_digit_def)
  moreover from unsigned have "tok \<noteq> []" by simp
  ultimately show ?thesis
    by (simp add: apply_operation_invalid)
qed

text \<open>The fold stops at the first token whose first character is not a marker.\<close>

lemma apply_operations_tokens:
  assumes "\<forall>tok\<in>set ops. \<exists>s r. regex_at s = Some (tok, r)"
  shows "case find (\<lambda>tok. hd tok \<notin> set ''+-/'') ops of
           None \<Rightarrow> \<exists>d. apply_operations date ops = Inr d
         | Some tok \<Rightarrow> apply_operations date ops = Inl (InvalidSign tok)"
  using assms
proof (induction ops arbitrary: date)
  case Nil
  show ?case by simp
next
  case (Cons tok ops)
  from Cons.prems obtain s r where t: "regex_at s = Some (tok, r)"
    by auto
  show ?case
  proof (cases "hd tok \<in> set ''+-/''")
    case True
    with apply_operation_token [OF t, of date] obtain d where "apply_operation date tok = Inr d"
      by auto
    then have a: "apply_operations date (tok # ops) = apply_operations d ops"
      by simp
    have f: "find (\<lambda>tok. hd tok \<notin> set ''+-/'') (tok # ops) =
        find (\<lambda>tok. hd tok \<notin> set ''+-/'') ops"
      using True by auto
    from Cons.prems have "\<forall>tok\<in>set ops. \<exists>s r. regex_at s = Some (tok, r)"
      by simp
    then show ?thesis
      unfolding a f by (rule Cons.IH)
  next
    case False
    with apply_operation_token [OF t, of date] show ?thesis
      by simp
  qed
qed

lemma apply_operations_append:
  "apply_operations date (xs @ ys) =
     (case apply_operations date xs of Inl e \<Rightarrow> Inl e | Inr d \<Rightarrow> apply_operations d ys)"
  by (induction xs arbitrary: date) (auto split: sum.splits)

text \<open>The rules that evaluate the pattern on a given text.\<close>

lemmas regex_eval =
  match_all_Some match_all_None regex_at_def number_at_def digits_unit_at_def rounding_at_def
  is_digit_def is_unit_def

lemma parse_prefix: "parse now s = Inl MissingPrefix \<longleftrightarrow> take 3 s \<noteq> ''now''"
proof (cases "take 3 s = ''now''")
  case True
  have "\<forall>tok\<in>set (match_all (drop 3 s)). \<exists>s' r. regex_at s' = Some (tok, r)"
    using match_all_tokens by blast
  from apply_operations_tokens [OF this, of now] have "parse now s \<noteq> Inl MissingPrefix"
    using True by (auto simp: parse_def split: option.splits)
  with True show ?thesis by simp
next
  case False
  then show ?thesis by (simp add: parse_def)
qed

lemma parse_tokens:
  assumes "take 3 s = ''now''"
  shows "case find (\<lambda>tok. hd tok \<notin> set ''+-/'') (match_all (drop 3 s)) of
           None \<Rightarrow> \<exists>d. parse now s = Inr d
         | Some tok \<Rightarrow> parse now s = Inl (InvalidSign tok)"
proof -
  have toks: "\<forall>tok\<in>set (match_all (drop 3 s)). \<exists>s' r. regex_at s' = Some (tok, r)"
    using match_all_tokens by blast
  have eq: "parse now s = apply_operations now (match_all (drop 3 s))"
    using assms by (simp add: parse_def)
  show ?thesis
    unfolding eq by (rule apply_operations_tokens [OF toks])
qed

lemma match_all_invalid: "match_all ''-4d/3h'' = [''-4d'', ''3h'']"
  by (simp add: regex_eval)

text \<open>
  C3. \<open>parse\<close> fails in exactly two ways. It throws the missing-prefix error if and only
  if the expression does not start with \<open>now\<close>. Given the prefix, it throws the
  invalid-sign error if and only if some matched token's first character is not one of
  \<open>+\<close>, \<open>-\<close>, \<open>/\<close>; the error carries the text of the first such token as it was
  matched, and no other error is thrown. \<open>now-4d/3h\<close> throws the invalid-sign error for
  the token \<open>3h\<close>, and \<open>invalid-date-string\<close> the missing-prefix error.
\<close>

theorem parse_errors:
  "(parse now s = Inl MissingPrefix \<longleftrightarrow> take 3 s \<noteq> ''now'') \<and>
   (take 3 s = ''now'' \<longrightarrow>
      ((\<exists>tok. parse now s = Inl (InvalidSign tok)) \<longleftrightarrow>
         (\<exists>tok\<in>set (match_all (drop 3 s)). hd tok \<notin> set ''+-/'')) \<and>
      (\<forall>tok. parse now s = Inl (InvalidSign tok) \<longrightarrow>
         find (\<lambda>tok. hd tok \<notin> set ''+-/'') (match_all (drop 3 s)) = Some tok) \<and>
      (\<forall>e. parse now s = Inl e \<longrightarrow> (\<exists>tok. e = InvalidSign tok))) \<and>
   parse now ''now-4d/3h'' = Inl (InvalidSign ''3h'') \<and>
   parse now ''invalid-date-string'' = Inl MissingPrefix"
proof (intro conjI impI)
  show "parse now s = Inl MissingPrefix \<longleftrightarrow> take 3 s \<noteq> ''now''"
    by (rule parse_prefix)
next
  assume p: "take 3 s = ''now''"
  let ?bad = "\<lambda>tok. hd tok \<notin> set ''+-/''"
  note c = parse_tokens [OF p, of now]
  show "(\<exists>tok. parse now s = Inl (InvalidSign tok)) \<longleftrightarrow>
      (\<exists>tok\<in>set (match_all (drop 3 s)). hd tok \<notin> set ''+-/'')"
  proof (cases "find ?bad (match_all (drop 3 s))")
    case None
    with c have "\<exists>d. parse now s = Inr d" by simp
    moreover from None have "\<not> (\<exists>tok\<in>set (match_all (drop 3 s)). ?bad tok)"
      by (simp add: find_None_iff)
    ultimately show ?thesis by auto
  next
    case (Some tok)
    with c have "parse now s = Inl (InvalidSign tok)" by simp
    moreover from Some have "tok \<in> set (match_all (drop 3 s)) \<and> ?bad tok"
      by (auto simp: find_Some_iff)
    ultimately show ?thesis by blast
  qed
  show "\<forall>tok. parse now s = Inl (InvalidSign tok) \<longrightarrow>
      find ?bad (match_all (drop 3 s)) = Some tok"
    using c by (cases "find ?bad (match_all (drop 3 s))") auto
  show "\<forall>e. parse now s = Inl e \<longrightarrow> (\<exists>tok. e = InvalidSign tok)"
    using c by (cases "find ?bad (match_all (drop 3 s))") auto
next
  have "take 3 ''now-4d/3h'' = ''now''" by simp
  from parse_tokens [OF this, of now] show "parse now ''now-4d/3h'' = Inl (InvalidSign ''3h'')"
    by (simp add: match_all_invalid)
next
  show "parse now ''invalid-date-string'' = Inl MissingPrefix"
    by (simp add: parse_def)
qed

theorem parse_errors_witness:
  "take 3 ''now-4d/3h'' = ''now'' \<and>
   (\<exists>tok\<in>set (match_all (drop 3 ''now-4d/3h'')). hd tok \<notin> set ''+-/'') \<and>
   parse 0 ''now-4d/3h'' = Inl (InvalidSign ''3h'') \<and>
   find (\<lambda>tok. hd tok \<notin> set ''+-/'') (match_all (drop 3 ''now-4d/3h'')) = Some ''3h'' \<and>
   parse 0 ''now-4d/3h'' \<noteq> Inl MissingPrefix"
proof -
  have h1: "take 3 ''now-4d/3h'' = ''now''" by simp
  have h2: "\<exists>tok\<in>set (match_all (drop 3 ''now-4d/3h'')). hd tok \<notin> set ''+-/''"
    by (simp add: match_all_invalid)
  from parse_errors [of 0 "''now-4d/3h''"] h1 h2 show ?thesis
    by blast
qed

lemma parse_now: "parse now (''now'' @ rest) = apply_operations now (match_all rest)"
  by (simp add: parse_def)

text \<open>
  C8. Characters after \<open>now\<close> that are in no match of the pattern are skipped: deleting
  them all, which leaves the matched tokens one after the other, does not change what
  \<open>parse\<close> returns or throws. When nothing matches, \<open>parse\<close> returns the reference instant.
\<close>

theorem parse_skips_unmatched:
  "parse now (''now'' @ rest) = parse now (''now'' @ concat (match_all rest)) \<and>
   (match_all rest = [] \<longrightarrow> parse now (''now'' @ rest) = Inr now)"
  by (simp only: parse_now match_all_concat) simp

theorem parse_skips_unmatched_witness:
  "match_all '' +x7/q'' = [] \<and> parse 1591968017486 ''now +x7/q'' = Inr 1591968017486"
proof -
  have h: "match_all '' +x7/q'' = []"
    by (simp add: regex_eval)
  from parse_skips_unmatched [of 1591968017486 "'' +x7/q''"] h
  have "parse 1591968017486 (''now'' @ '' +x7/q'') = Inr 1591968017486"
    by blast
  with h show ?thesis
    by simp
qed

section \<open>Adjustments and roundings as arithmetic\<close>

lemma setUTCDate_shift_minus: "setUTCDate t (getUTCDate t - k) = t - k * msPerDay"
  using setUTCDate_shift [of t "- k"] by simp

lemma applyAdjustment_fixed:
  assumes "u \<in> {''s'', ''m'', ''h'', ''d'', ''w''}"
  shows "applyAdjustment t sg v u = t + (if sg = ''+'' then v else - v) * unit_ms u"
proof -
  have w: "setUTCDate t (getUTCDate t + v * 7 * m) = t + (v * 7 * m) * msPerDay" for m
    by (rule setUTCDate_shift)
  from assms show ?thesis
    by (auto simp: applyAdjustment_def unit_ms_def w setUTCDate_shift setUTCDate_shift_minus
        setUTCHours_shift setUTCMinutes_shift setUTCSeconds_shift)
qed

lemma applyRounding_fixed:
  "applyRounding t ''d'' = Inr (t - t mod msPerDay)"
  "applyRounding t ''h'' = Inr (t - t mod msPerHour)"
  "applyRounding t ''m'' = Inr (t - t mod msPerMinute)"
  "applyRounding t ''s'' = Inr (t - t mod msPerSecond)"
  by (simp_all add: applyRounding_def setUTCHours_zero setUTCMinutes_zero setUTCSeconds_zero
      setUTCMilliseconds_zero)

lemma round_day_MakeDate:
  "MakeDate d (TimeWithinDay t) - MakeDate d (TimeWithinDay t) mod msPerDay = MakeDate d 0"
proof -
  have "TimeWithinDay (MakeDate d (TimeWithinDay t)) = TimeWithinDay t"
    by (rule Day_MakeDate(2) [OF TimeWithinDay_range])
  then have "MakeDate d (TimeWithinDay t) mod msPerDay = TimeWithinDay t"
    by (simp add: TimeWithinDay_def)
  then show ?thesis
    by (simp add: MakeDate_def)
qed

lemma applyRounding_week:
  "applyRounding t ''w'' = Inr (MakeDate (Day t - WeekDay t) 0)"
proof -
  have "t - WeekDay t * msPerDay = MakeDate (Day t - WeekDay t) (TimeWithinDay t)"
    using MakeDate_Day [of t] by (simp add: MakeDate_def algebra_simps)
  then show ?thesis
    using round_day_MakeDate [of "Day t - WeekDay t" t]
    by (simp add: applyRounding_def Let_def getUTCDay_def setUTCDate_shift_minus setUTCHours_zero)
qed

lemma applyRounding_month:
  "applyRounding t ''M'' = Inr (MakeDate (MakeDay (YearFromTime t) (MonthFromTime t) 1) 0)"
  using round_day_MakeDate [of "MakeDay (YearFromTime t) (MonthFromTime t) 1" t]
  by (simp add: applyRounding_def setUTCDate_def setUTCHours_zero)

lemma applyRounding_year:
  "applyRounding t ''y'' = Inr (MakeDate (MakeDay (YearFromTime t) 0 1) 0)"
  using round_day_MakeDate [of "MakeDay (YearFromTime t) 0 1" t]
  by (simp add: applyRounding_def setUTCMonth_def setUTCHours_zero)

section \<open>Rounding twice\<close>

lemma round_mod: "(t - t mod n) mod n = 0" for t n :: int
  by (simp add: minus_mod_eq_mult_div)

lemma applyRounding_fixed_idem:
  "applyRounding (t - t mod msPerDay) ''d'' = Inr (t - t mod msPerDay)"
  "applyRounding (t - t mod msPerHour) ''h'' = Inr (t - t mod msPerHour)"
  "applyRounding (t - t mod msPerMinute) ''m'' = Inr (t - t mod msPerMinute)"
  "applyRounding (t - t mod msPerSecond) ''s'' = Inr (t - t mod msPerSecond)"
  using round_mod [of t 86400000] round_mod [of t 3600000] round_mod [of t 60000]
    round_mod [of t 1000]
  by (simp_all add: applyRounding_fixed)

lemma Day_MakeDate_zero: "Day (MakeDate d 0) = d"
  by (rule Day_MakeDate(1)) simp_all

lemma WeekDay_week_start: "WeekDay (MakeDate (Day t - WeekDay t) 0) = 0"
proof -
  have "(a - a mod 7) mod 7 = 0" for a :: int
    by (rule round_mod)
  from this [of "Day t + 4"] show ?thesis
    by (simp add: WeekDay_def Day_MakeDate_zero algebra_simps)
qed

lemma applyRounding_week_idem:
  "applyRounding (MakeDate (Day t - WeekDay t) 0) ''w'' = Inr (MakeDate (Day t - WeekDay t) 0)"
  by (simp only: applyRounding_week WeekDay_week_start Day_MakeDate_zero diff_zero)

lemma applyRounding_month_idem:
  "applyRounding (MakeDate (MakeDay (YearFromTime t) (MonthFromTime t) 1) 0) ''M'' =
     Inr (MakeDate (MakeDay (YearFromTime t) (MonthFromTime t) 1) 0)"
proof -
  have "MonthFromTime t div 12 = 0" "MonthFromTime t mod 12 = MonthFromTime t"
    using MonthFromTime_range [of t] by simp_all
  with MakeDay_first [of "YearFromTime t" "MonthFromTime t"] show ?thesis
    by (simp add: applyRounding_month)
qed

lemma applyRounding_year_idem:
  "applyRounding (MakeDate (MakeDay (YearFromTime t) 0 1) 0) ''y'' =
     Inr (MakeDate (MakeDay (YearFromTime t) 0 1) 0)"
  using MakeDay_first [of "YearFromTime t" 0] by (simp add: applyRounding_year)

lemma applyRounding_idem:
  assumes "u \<in> {''s'', ''m'', ''h'', ''d'', ''w'', ''M'', ''y''}"
  shows "\<exists>r. applyRounding t u = Inr r \<and> applyRounding r u = Inr r"
  using assms applyRounding_fixed_idem [of t] applyRounding_week_idem [of t]
    applyRounding_month_idem [of t] applyRounding_year_idem [of t]
  by (auto simp: applyRounding_fixed applyRounding_week applyRounding_month applyRounding_year)

section \<open>A rounding token at the end of the text\<close>

text \<open>
  A slash only starts a match: what is matched before a slash does not depend on the
  text from the slash on.
\<close>

lemma digits_unit_at_slash:
  "digits_unit_at (s @ CHR ''/'' # r) =
     map_option (\<lambda>(tok, rest). (tok, rest @ CHR ''/'' # r)) (digits_unit_at s)"
proof (cases "\<forall>c\<in>set s. is_digit c")
  case True
  have nd: "\<not> is_digit CHR ''/''"
    by (simp add: is_digit_def)
  have d: "dropWhile is_digit s = []"
    using True by simp
  show ?thesis
    by (simp add: digits_unit_at_def takeWhile_digits [OF True nd] d is_unit_def)
next
  case False
  then obtain x where "x \<in> set s" "\<not> is_digit x" by blast
  then have "takeWhile is_digit (s @ CHR ''/'' # r) = takeWhile is_digit s"
      "dropWhile is_digit (s @ CHR ''/'' # r) = dropWhile is_digit s @ CHR ''/'' # r"
    by simp_all
  moreover have "dropWhile is_digit s \<noteq> []"
    using False by simp
  ultimately show ?thesis
    by (cases "dropWhile is_digit s") (simp_all add: digits_unit_at_def Let_def)
qed

lemma number_at_slash_append:
  assumes "s \<noteq> []"
  shows "number_at (s @ CHR ''/'' # r) =
     map_option (\<lambda>(tok, rest). (tok, rest @ CHR ''/'' # r)) (number_at s)"
proof -
  from assms obtain c cs where s: "s = c # cs" by (cases s) auto
  have a: "digits_unit_at (cs @ CHR ''/'' # r) =
      map_option (\<lambda>(tok, rest). (tok, rest @ CHR ''/'' # r)) (digits_unit_at cs)"
    by (rule digits_unit_at_slash)
  have b: "digits_unit_at (c # cs @ CHR ''/'' # r) =
      map_option (\<lambda>(tok, rest). (tok, rest @ CHR ''/'' # r)) (digits_unit_at (c # cs))"
    using digits_unit_at_slash [of "c # cs" r] by simp
  show ?thesis
    unfolding s by (auto simp: number_at_def a b digits_unit_at_sign split: option.splits)
qed

lemma rounding_at_slash_append:
  assumes "s \<noteq> []"
  shows "rounding_at (s @ CHR ''/'' # r) =
     map_option (\<lambda>(tok, rest). (tok, rest @ CHR ''/'' # r)) (rounding_at s)"
  using assms by (auto simp: rounding_at_def is_unit_def split: list.splits)

lemma regex_at_slash_append:
  assumes "s \<noteq> []"
  shows "regex_at (s @ CHR ''/'' # r) =
     map_option (\<lambda>(tok, rest). (tok, rest @ CHR ''/'' # r)) (regex_at s)"
  by (auto simp: regex_at_def number_at_slash_append [OF assms] rounding_at_slash_append [OF assms]
      split: option.splits)

lemma match_all_slash_append:
  "match_all (s @ CHR ''/'' # r) = match_all s @ match_all (CHR ''/'' # r)"
proof (induction s rule: match_all.induct)
  case (1 s)
  show ?case
  proof (cases "s = []")
    case True
    then show ?thesis by simp
  next
    case False
    then obtain c cs where s: "s = c # cs" by (cases s) auto
    show ?thesis
    proof (cases "regex_at s")
      case None
      then have "regex_at (c # cs @ CHR ''/'' # r) = None"
        using regex_at_slash_append [OF False, of r] by (simp add: s)
      then have "match_all (s @ CHR ''/'' # r) = match_all (cs @ CHR ''/'' # r)"
        by (simp add: s match_all_None)
      moreover have "match_all s = match_all cs"
        using None by (simp add: s match_all_None)
      ultimately show ?thesis
        using "1.IH"(1) [OF False None] by (simp add: s)
    next
      case (Some m)
      obtain tok rest where m: "m = (tok, rest)" by (cases m)
      have "regex_at (c # cs @ CHR ''/'' # r) = Some (tok, rest @ CHR ''/'' # r)"
        using regex_at_slash_append [OF False, of r] Some by (simp add: s m)
      then have "match_all (s @ CHR ''/'' # r) = tok # match_all (rest @ CHR ''/'' # r)"
        by (simp add: s match_all_Some)
      moreover have "match_all s = tok # match_all rest"
        using Some by (simp add: s m match_all_Some)
      ultimately show ?thesis
        using "1.IH"(2) [OF False Some [unfolded m] refl] by simp
    qed
  qed
qed

lemma match_all_rounding_twice:
  assumes "u \<in> {''s'', ''m'', ''h'', ''d'', ''w'', ''M'', ''y''}"
  shows "match_all (e @ ''/'' @ u) = match_all e @ [''/'' @ u]"
    and "match_all (e @ ''/'' @ u @ ''/'' @ u) = match_all e @ [''/'' @ u, ''/'' @ u]"
  using assms by (auto simp: match_all_slash_append regex_eval)

lemma apply_operations_rounding_twice:
  assumes "u \<in> {''s'', ''m'', ''h'', ''d'', ''w'', ''M'', ''y''}"
  shows "apply_operations t [''/'' @ u, ''/'' @ u] = apply_operations t [''/'' @ u]"
proof -
  from assms obtain c where u: "u = [c]" by auto
  from applyRounding_idem [OF assms, of t] show ?thesis
    by (auto simp: u apply_operation_rounding)
qed

text \<open>
  C7. Rounding is idempotent: for each of the seven units and every instant, rounding to
  the unit succeeds, and rounding the result to the same unit again returns it unchanged.
  So an expression that ends in \<open>/u/u\<close> parses to what the same expression ending in
  \<open>/u\<close> parses to (or throws the same error).
\<close>

theorem rounding_idempotent:
  assumes "u \<in> {''s'', ''m'', ''h'', ''d'', ''w'', ''M'', ''y''}"
  shows "(\<exists>r. applyRounding t u = Inr r \<and> applyRounding r u = Inr r) \<and>
         parse now (''now'' @ e @ ''/'' @ u @ ''/'' @ u) = parse now (''now'' @ e @ ''/'' @ u)"
proof
  show "\<exists>r. applyRounding t u = Inr r \<and> applyRounding r u = Inr r"
    using assms by (rule applyRounding_idem)
  show "parse now (''now'' @ e @ ''/'' @ u @ ''/'' @ u) = parse now (''now'' @ e @ ''/'' @ u)"
    by (simp only: parse_now match_all_rounding_twice [OF assms] apply_operations_append
        apply_operations_rounding_twice [OF assms])
qed

theorem rounding_idempotent_witness:
  "(\<exists>r. applyRounding 1591968017486 ''w'' = Inr r \<and> applyRounding r ''w'' = Inr r) \<and>
   parse 1591968017486 ''now-4d/w/w'' = parse 1591968017486 ''now-4d/w''"
  using rounding_idempotent [of "''w''" 1591968017486 1591968017486 "''-4d''"] by simp

section \<open>Scenarios\<close>

text \<open>The rules that evaluate the calendar, \<open>parse\<close> and \<open>stringify\<close> on given values.\<close>

lemmas calendar_eval =
  Date_UTC_def MakeDate_def MakeDay_def MakeTime_def DayFromYear_def DaysInYear_def
  MonthStart_def MonthOfDay_def Day_def TimeWithinDay_def YearFromTime_def InLeapYear_def
  DayWithinYear_def MonthFromTime_def DateFromTime_def WeekDay_def HourFromTime_def
  MinFromTime_def SecFromTime_def msFromTime_def
  getUTCFullYear_def getUTCMonth_def getUTCDate_def getUTCDay_def getUTCHours_def
  getUTCMinutes_def getUTCSeconds_def getUTCMilliseconds_def
  setUTCMilliseconds_def setUTCSeconds_def setUTCMinutes_def setUTCHours_def setUTCDate_def
  setUTCMonth_def setUTCFullYear_def

lemmas parse_eval =
  parse_def regex_eval apply_operation_def parseInt_def digit_val_def slice_1_m1_def
  slice_m1_def applyAdjustment_def applyRounding_def Let_def

text \<open>
  C2. With the reference instant 2020-06-12T13:20:17.486Z, \<open>parse\<close> returns
  2019-01-01T00:00:00.000Z for \<open>now-1y/y\<close>, 2020-01-01T00:00:00.000Z for \<open>now/y\<close>,
  2020-06-07T00:00:00.000Z for \<open>now/w\<close>, 2020-06-14T00:00:00.000Z for \<open>now+2d/w\<close> and
  2020-06-08T00:00:00.000Z for \<open>now-4d-4h+13m/d\<close>. (Months count from 0 in \<open>Date_UTC\<close>.)
\<close>

theorem parse_scenarios:
  "parse (Date_UTC 2020 5 12 13 20 17 486) ''now-1y/y'' = Inr (Date_UTC 2019 0 1 0 0 0 0) \<and>
   parse (Date_UTC 2020 5 12 13 20 17 486) ''now/y'' = Inr (Date_UTC 2020 0 1 0 0 0 0) \<and>
   parse (Date_UTC 2020 5 12 13 20 17 486) ''now/w'' = Inr (Date_UTC 2020 5 7 0 0 0 0) \<and>
   parse (Date_UTC 2020 5 12 13 20 17 486) ''now+2d/w'' = Inr (Date_UTC 2020 5 14 0 0 0 0) \<and>
   parse (Date_UTC 2020 5 12 13 20 17 486) ''now-4d-4h+13m/d'' =
     Inr (Date_UTC 2020 5 8 0 0 0 0)"
  by (intro conjI; simp add: parse_eval calendar_eval)

section \<open>Order of operations\<close>

lemma parse_adjust_then_round:
  "parse now ''now-4d/h'' = Inr (now - 345600000 - (now - 345600000) mod msPerHour)"
  by (simp add: parse_def regex_eval apply_operation_def parseInt_def digit_val_def
      slice_1_m1_def slice_m1_def applyAdjustment_def applyRounding_fixed
      setUTCDate_shift_minus)

lemma parse_round_then_adjust:
  "parse now ''now/h-4d'' = Inr (now - now mod msPerHour - 345600000)"
  by (simp add: parse_def regex_eval apply_operation_def parseInt_def digit_val_def
      slice_1_m1_def slice_m1_def applyAdjustment_def applyRounding_fixed
      setUTCDate_shift_minus)

lemma parse_order_4d_h: "parse now ''now-4d/h'' = parse now ''now/h-4d''"
  using mod_shift [of now 3600000 96]
  by (simp add: parse_adjust_then_round parse_round_then_adjust)

text \<open>
  C4, as stated, fails: \<open>now-4d/h\<close> and \<open>now/h-4d\<close> parse to the same instant for every
  reference instant. Four days are a whole number of hours, and UTC days all have 24
  hours, so subtracting them does not change the time within the hour.
\<close>

theorem order_4d_h_counterexample:
  "\<not> (\<exists>now. parse now ''now-4d/h'' \<noteq> parse now ''now/h-4d'')"
  by (simp add: parse_order_4d_h)

text \<open>
  C4, amended. The order of operations matters in general: with the reference instant
  2020-06-12T13:20:17.486Z, \<open>now-4h/d\<close> is 2020-06-12T00:00:00.000Z and \<open>now/d-4h\<close> is
  2020-06-11T20:00:00.000Z. The pair of the specification, \<open>now-4d/h\<close> and \<open>now/h-4d\<close>,
  agrees for every reference instant.
\<close>

theorem order_sensitivity:
  "parse (Date_UTC 2020 5 12 13 20 17 486) ''now-4h/d'' = Inr (Date_UTC 2020 5 12 0 0 0 0) \<and>
   parse (Date_UTC 2020 5 12 13 20 17 486) ''now/d-4h'' = Inr (Date_UTC 2020 5 11 20 0 0 0) \<and>
   Date_UTC 2020 5 12 0 0 0 0 \<noteq> Date_UTC 2020 5 11 20 0 0 0 \<and>
   (\<forall>now. parse now ''now-4d/h'' = parse now ''now/h-4d'')"
  by (intro conjI allI parse_order_4d_h; simp add: parse_eval calendar_eval)

section \<open>The magnitude of an adjustment\<close>

text \<open>
  C5 does not hold of the code: \<^verbatim>\<open>parseInt(...) || 1\<close> replaces a magnitude of 0 by 1, so
  \<open>now+0d\<close> is the reference instant plus one day, as \<open>now+1d\<close> is.
\<close>

theorem zero_magnitude:
  "parse now ''now+0d'' = Inr (now + msPerDay) \<and> parse now ''now+1d'' = Inr (now + msPerDay)"
  using setUTCDate_shift [of now 1]
  by (simp add: parse_def regex_eval apply_operation_def parseInt_def digit_val_def
      slice_1_m1_def slice_m1_def applyAdjustment_def)

section \<open>Facts about \<^verbatim>\<open>stringify\<close>\<close>

lemma nat_str_numeral [simp]:
  "nat_str (numeral k) =
     (if (numeral k :: nat) < 10 then [digit_char (numeral k)]
      else nat_str (numeral k div 10) @ [digit_char (numeral k mod 10)])"
  by (rule nat_str.simps)

lemma nat_str_0 [simp]: "nat_str 0 = ''0''"
  by (simp add: nat_str.simps digit_char_def)

lemma nat_str_1 [simp]: "nat_str (Suc 0) = ''1''"
  by (simp add: nat_str.simps digit_char_def)

lemmas stringify_eval =
  stringify_def year_aligned_def month_aligned_def week_aligned_def day_aligned_def
  hour_aligned_def minute_aligned_def js_rem_def num_str_def
  digit_char_def msInSecond_def msInMinute_def msInHour_def msInDay_def msInWeek_def
  msInMonth_def msInYear_def convertToDateOnly_def

text \<open>The alignment checks are nested, but for the week.\<close>

lemma aligned_minute:
  "year_aligned d \<Longrightarrow> minute_aligned d" "month_aligned d \<Longrightarrow> minute_aligned d"
  "week_aligned d \<Longrightarrow> minute_aligned d" "day_aligned d \<Longrightarrow> minute_aligned d"
  "hour_aligned d \<Longrightarrow> minute_aligned d"
  by (simp_all add: year_aligned_def month_aligned_def week_aligned_def day_aligned_def
      hour_aligned_def minute_aligned_def)

lemma js_rem_nonneg: "0 \<le> a \<Longrightarrow> 0 < b \<Longrightarrow> js_rem a b = a - (a div b) * b"
  by (simp add: js_rem_def minus_div_mult_eq_mod)

lemma units_spec: "units = spec_units"
  by (simp add: units_def spec_units_def msInSecond_def msInMinute_def msInHour_def
      msInDay_def msInWeek_def msInMonth_def msInYear_def)

text \<open>The loop over the units writes the components of the greedy breakdown.\<close>

lemma foldl_unit_step:
  assumes "0 \<le> td" "\<forall>u\<in>set us. 0 < snd u"
  shows "snd (foldl (unit_step sign) (td, res) us) =
     res @ concat (map (\<lambda>(label, v). sign @ num_str v @ label)
                     (filter (\<lambda>(label, v). 0 < v) (breakdown td us)))"
  using assms
proof (induction us arbitrary: td res)
  case Nil
  show ?case by simp
next
  case (Cons u us)
  obtain label dur where u: "u = (label, dur)" by (cases u)
  from Cons.prems have dur: "0 < dur" and rest: "\<forall>u\<in>set us. 0 < snd u"
    by (simp_all add: u)
  let ?td = "td - (td div dur) * dur"
  have r: "js_rem td dur = ?td"
    using Cons.prems(1) dur by (rule js_rem_nonneg)
  have nn: "0 \<le> ?td"
    using dur by (simp add: minus_div_mult_eq_mod)
  have step: "unit_step sign (td, res) (label, dur) =
      (?td, if 0 < td div dur then res @ sign @ num_str (td div dur) @ label else res)"
    by (simp add: unit_step_def Let_def r)
  show ?case
    by (simp add: step u Cons.IH [OF nn rest])
qed

lemma stringify_not_aligned:
  assumes "\<not> minute_aligned date"
  shows "stringify now date =
     snd (foldl (unit_step (if date - now \<ge> 0 then ''+'' else ''-'')) (\<bar>date - now\<bar>, ''now'') units)"
proof -
  from assms aligned_minute [of date]
  have "\<not> year_aligned date" "\<not> month_aligned date" "\<not> week_aligned date"
    "\<not> day_aligned date" "\<not> hour_aligned date"
    by blast+
  with assms show ?thesis
    by (simp only: stringify_def Let_def if_False)
qed

lemma stringify_fallback:
  assumes "\<not> minute_aligned date"
  shows "stringify now date = fallback_text now date"
proof -
  have "\<forall>u\<in>set spec_units. 0 < snd u"
    by (simp add: spec_units_def)
  then show ?thesis
    by (simp add: stringify_not_aligned [OF assms] units_spec foldl_unit_step fallback_text_def
        Let_def)
qed

lemma unaligned_iff: "unaligned date \<longleftrightarrow> \<not> minute_aligned date"
  using aligned_minute [of date] by (auto simp: unaligned_def)

lemma scenario_difference:
  "Date_UTC 2020 5 8 8 13 17 486 - Date_UTC 2020 5 12 13 20 17 486 = - 364020000"
  by (simp add: calendar_eval)

lemma scenario_fallback_text:
  "fallback_text (Date_UTC 2020 5 12 13 20 17 486) (Date_UTC 2020 5 8 8 13 17 486) =
     ''now-4d-5h-7m''"
  unfolding fallback_text_def Let_def scenario_difference
  by (simp add: spec_units_def num_str_def digit_char_def)

lemma scenario_unaligned: "unaligned (Date_UTC 2020 5 8 8 13 17 486)"
  unfolding unaligned_iff by (simp add: minute_aligned_def calendar_eval)

text \<open>
  C9. For a date that none of the six alignment checks matches, \<open>stringify\<close> returns the
  text of the greedy breakdown of the absolute difference over year (365 days), month
  (30 days), week, day, hour, minute and second: a component for each value greater
  than zero, all with the sign of the signed difference, and \<open>now\<close> alone when every
  value is zero. With the reference instant 2020-06-12T13:20:17.486Z, the date
  2020-06-08T08:13:17.486Z gives \<open>now-4d-5h-7m\<close>.
\<close>

theorem stringify_breakdown:
  "(unaligned date \<longrightarrow> stringify now date = fallback_text now date) \<and>
   (unaligned date \<and> (\<forall>c\<in>set (breakdown \<bar>date - now\<bar> spec_units). snd c = 0) \<longrightarrow>
      stringify now date = ''now'') \<and>
   stringify (Date_UTC 2020 5 12 13 20 17 486) (Date_UTC 2020 5 8 8 13 17 486) = ''now-4d-5h-7m''"
proof (intro conjI impI)
  show "stringify now date = fallback_text now date" if "unaligned date"
    using that by (simp add: unaligned_iff stringify_fallback)
  show "stringify now date = ''now''"
    if "unaligned date \<and> (\<forall>c\<in>set (breakdown \<bar>date - now\<bar> spec_units). snd c = 0)"
  proof -
    from that have "filter (\<lambda>(label, v). 0 < v) (breakdown \<bar>date - now\<bar> spec_units) = []"
      by (auto simp: filter_empty_conv)
    with that show ?thesis
      by (simp add: unaligned_iff stringify_fallback fallback_text_def Let_def)
  qed
  show "stringify (Date_UTC 2020 5 12 13 20 17 486) (Date_UTC 2020 5 8 8 13 17 486) =
      ''now-4d-5h-7m''"
    using scenario_unaligned
    by (simp add: unaligned_iff stringify_fallback scenario_fallback_text)
qed

lemma near_unaligned: "unaligned (Date_UTC 2020 5 12 13 20 17 486 + 500)"
  unfolding unaligned_iff by (simp add: minute_aligned_def calendar_eval)

lemma near_breakdown: "map snd (breakdown 500 spec_units) = [0, 0, 0, 0, 0, 0, 0]"
  by (simp add: spec_units_def)

theorem stringify_breakdown_witness:
  "unaligned (Date_UTC 2020 5 8 8 13 17 486) \<and>
   stringify (Date_UTC 2020 5 12 13 20 17 486) (Date_UTC 2020 5 8 8 13 17 486) =
     fallback_text (Date_UTC 2020 5 12 13 20 17 486) (Date_UTC 2020 5 8 8 13 17 486) \<and>
   fallback_text (Date_UTC 2020 5 12 13 20 17 486) (Date_UTC 2020 5 8 8 13 17 486) =
     ''now-4d-5h-7m'' \<and>
   unaligned (Date_UTC 2020 5 12 13 20 17 486 + 500) \<and>
   map snd (breakdown 500 spec_units) = [0, 0, 0, 0, 0, 0, 0] \<and>
   stringify (Date_UTC 2020 5 12 13 20 17 486) (Date_UTC 2020 5 12 13 20 17 486 + 500) = ''now''"
proof -
  have z: "\<forall>c\<in>set (breakdown \<bar>Date_UTC 2020 5 12 13 20 17 486 + 500
      - Date_UTC 2020 5 12 13 20 17 486\<bar> spec_units). snd c = 0"
    by (simp add: spec_units_def)
  show ?thesis
    using stringify_breakdown [of "Date_UTC 2020 5 8 8 13 17 486" "Date_UTC 2020 5 12 13 20 17 486"]
      stringify_breakdown [of "Date_UTC 2020 5 12 13 20 17 486 + 500"
        "Date_UTC 2020 5 12 13 20 17 486"]
      scenario_unaligned scenario_fallback_text near_unaligned near_breakdown z
    by blast
qed

section \<open>The remainder below one second\<close>

lemma breakdown_labels: "map fst (breakdown td us) = map fst us"
  by (induction td us rule: breakdown.induct) simp_all

lemma breakdown_eq:
  assumes "map snd (breakdown a us) = map snd (breakdown b us)"
  shows "breakdown a us = breakdown b us"
proof -
  have "map fst (breakdown a us) = map fst (breakdown b us)"
    by (simp add: breakdown_labels)
  with assms show ?thesis
    by (simp add: pair_list_eqI)
qed

lemma breakdown_small:
  assumes "0 \<le> td" "td < 1000"
  shows "filter (\<lambda>(label, v). 0 < v) (breakdown td spec_units) = []"
  using assms by (simp add: spec_units_def)

lemma stringify_unaligned:
  assumes "unaligned date"
  shows "stringify now date =
     ''now'' @ concat (map (\<lambda>(label, v). (if 0 \<le> date - now then ''+'' else ''-'') @ num_str v @ label)
        (filter (\<lambda>(label, v). 0 < v) (breakdown \<bar>date - now\<bar> spec_units)))"
proof -
  have "\<forall>u\<in>set spec_units. 0 < snd u"
    by (simp add: spec_units_def)
  then show ?thesis
    using assms
    by (simp add: unaligned_iff stringify_not_aligned units_spec foldl_unit_step)
qed

lemma stringify_near:
  assumes "unaligned date" "\<bar>date - now\<bar> < 1000"
  shows "stringify now date = ''now''"
  using assms by (simp add: stringify_unaligned breakdown_small)

lemma stringify_same_counts:
  assumes "unaligned date1" "unaligned date2"
    and counts: "map snd (breakdown \<bar>date1 - now\<bar> units) = map snd (breakdown \<bar>date2 - now\<bar> units)"
    and near: "\<bar>(date1 - now) - (date2 - now)\<bar> < 1000"
  shows "stringify now date1 = stringify now date2"
proof -
  have b: "(breakdown \<bar>date1 - now\<bar> spec_units) = (breakdown \<bar>date2 - now\<bar> spec_units)"
    using counts by (intro breakdown_eq) (simp add: units_spec)
  show ?thesis
  proof (cases "\<bar>date1 - now\<bar> < 1000 \<or> \<bar>date2 - now\<bar> < 1000")
    case True
    then have "filter (\<lambda>(label, v). 0 < v) (breakdown \<bar>date1 - now\<bar> spec_units) = []"
      using breakdown_small [of "\<bar>date1 - now\<bar>"] breakdown_small [of "\<bar>date2 - now\<bar>"] b
      by auto
    then show ?thesis
      using b by (simp add: stringify_unaligned assms(1,2))
  next
    case False
    with near have "0 \<le> date1 - now \<longleftrightarrow> 0 \<le> date2 - now"
      by linarith
    then show ?thesis
      using b by (simp add: stringify_unaligned assms(1,2))
  qed
qed

text \<open>
  C10. The fallback of \<open>stringify\<close> writes no component below the second. Two dates that
  reach it, whose differences from the reference instant have the same count for every
  unit and are less than 1000 ms apart, give the same text; a date that reaches it
  within 1000 ms of the reference instant gives \<open>now\<close>.
\<close>

theorem stringify_drops_milliseconds:
  "(unaligned date1 \<and> unaligned date2 \<and>
    map snd (breakdown \<bar>date1 - now\<bar> units) = map snd (breakdown \<bar>date2 - now\<bar> units) \<and>
    \<bar>(date1 - now) - (date2 - now)\<bar> < 1000 \<longrightarrow>
      stringify now date1 = stringify now date2) \<and>
   (unaligned date1 \<and> \<bar>date1 - now\<bar> < 1000 \<longrightarrow> stringify now date1 = ''now'')"
  using stringify_same_counts [of date1 date2 now] stringify_near [of date1 now]
  by blast

theorem stringify_drops_milliseconds_witness:
  "unaligned (1591968017486 + 3723500) \<and> unaligned (1591968017486 + 3723900) \<and>
   map snd (breakdown \<bar>1591968017486 + 3723500 - 1591968017486\<bar> units) = [0, 0, 0, 0, 1, 2, 3] \<and>
   map snd (breakdown \<bar>1591968017486 + 3723900 - 1591968017486\<bar> units) = [0, 0, 0, 0, 1, 2, 3] \<and>
   stringify 1591968017486 (1591968017486 + 3723500) =
     stringify 1591968017486 (1591968017486 + 3723900) \<and>
   unaligned (1591968017486 - 300) \<and>
   stringify 1591968017486 (1591968017486 - 300) = ''now''"
proof -
  have u: "unaligned (1591968017486 + 3723500)" "unaligned (1591968017486 + 3723900)"
    "unaligned (1591968017486 - 300)"
    unfolding unaligned_iff by (simp_all add: minute_aligned_def calendar_eval)
  have c: "map snd (breakdown \<bar>1591968017486 + 3723500 - 1591968017486\<bar> units) =
      [0, 0, 0, 0, 1, 2, 3]"
    "map snd (breakdown \<bar>1591968017486 + 3723900 - 1591968017486\<bar> units) =
      [0, 0, 0, 0, 1, 2, 3]"
    by (simp_all add: units_spec spec_units_def)
  have n: "\<bar>(1591968017486 + 3723500 - 1591968017486) -
      (1591968017486 + 3723900 - 1591968017486)\<bar> < (1000 :: int)"
    "\<bar>1591968017486 - 300 - 1591968017486\<bar> < (1000 :: int)"
    by simp_all
  show ?thesis
    using stringify_drops_milliseconds [of "1591968017486 + 3723500" "1591968017486 + 3723900"
        1591968017486]
      stringify_drops_milliseconds [of "1591968017486 - 300" _ 1591968017486] u c n
    by simp
qed

section \<open>The round trip\<close>

text \<open>
  C1 does not hold of the code. With the reference instant 2020-06-12T13:20:17.486Z, the
  day-aligned instant 2020-06-11T00:00:00.000Z is written \<open>now-1d\<close>, without the rounding
  \<open>/d\<close>, and \<open>now-1d\<close> parses to 2020-06-11T13:20:17.486Z. The week-aligned instant
  2020-06-07T00:00:00.000Z is written \<open>now--12d/w\<close>, the sign before a negative count of
  days, which parses to 2020-05-31T00:00:00.000Z.
\<close>

theorem round_trip_fails:
  "day_aligned (Date_UTC 2020 5 11 0 0 0 0) \<and>
   stringify (Date_UTC 2020 5 12 13 20 17 486) (Date_UTC 2020 5 11 0 0 0 0) = ''now-1d'' \<and>
   parse (Date_UTC 2020 5 12 13 20 17 486) ''now-1d'' = Inr (Date_UTC 2020 5 11 13 20 17 486) \<and>
   Date_UTC 2020 5 11 13 20 17 486 \<noteq> Date_UTC 2020 5 11 0 0 0 0 \<and>
   week_aligned (Date_UTC 2020 5 7 0 0 0 0) \<and>
   stringify (Date_UTC 2020 5 12 13 20 17 486) (Date_UTC 2020 5 7 0 0 0 0) = ''now--12d/w'' \<and>
   parse (Date_UTC 2020 5 12 13 20 17 486) ''now--12d/w'' = Inr (Date_UTC 2020 4 31 0 0 0 0) \<and>
   Date_UTC 2020 4 31 0 0 0 0 \<noteq> Date_UTC 2020 5 7 0 0 0 0"
  by (intro conjI; simp add: stringify_eval parse_eval calendar_eval)

theorem round_trip_fails_witness:
  "parse (Date_UTC 2020 5 12 13 20 17 486)
     (stringify (Date_UTC 2020 5 12 13 20 17 486) (Date_UTC 2020 5 11 0 0 0 0))
     \<noteq> Inr (Date_UTC 2020 5 11 0 0 0 0) \<and>
   parse (Date_UTC 2020 5 12 13 20 17 486)
     (stringify (Date_UTC 2020 5 12 13 20 17 486) (Date_UTC 2020 5 7 0 0 0 0))
     \<noteq> Inr (Date_UTC 2020 5 7 0 0 0 0)"
  using round_trip_fails by simp

section \<open>A single adjustment\<close>

lemma digit_char_val: "n < 10 \<Longrightarrow> is_digit (digit_char n) \<and> digit_val (digit_char n) = int n"
proof -
  assume "n < 10"
  then have "n \<in> set [0..<10]"
    by simp
  moreover have "\<forall>k\<in>set [0..<10]. is_digit (digit_char k) \<and> digit_val (digit_char k) = int k"
    by (simp add: upt_rec digit_char_def is_digit_def digit_val_def)
  ultimately show ?thesis
    by blast
qed

lemma nat_str_digits: "nat_str n \<noteq> [] \<and> (\<forall>c\<in>set (nat_str n). is_digit c)"
proof (induction n rule: nat_str.induct)
  case (1 n)
  show ?case
  proof (cases "n < 10")
    case True
    then show ?thesis
      by (subst (1 2) nat_str.simps) (simp add: digit_char_val)
  next
    case False
    with "1.IH" show ?thesis
      by (subst (1 2) nat_str.simps) (simp add: digit_char_val)
  qed
qed

lemma nat_str_value: "foldl (\<lambda>a c. 10 * a + digit_val c) 0 (nat_str n) = int n"
proof (induction n rule: nat_str.induct)
  case (1 n)
  show ?case
  proof (cases "n < 10")
    case True
    then show ?thesis
      by (subst nat_str.simps) (simp add: digit_char_val)
  next
    case False
    have "int n = 10 * int (n div 10) + int (n mod 10)"
      by (simp add: zdiv_int zmod_int)
    with False "1.IH" show ?thesis
      by (subst nat_str.simps) (simp add: digit_char_val)
  qed
qed

lemma parseInt_nat_str: "parseInt (nat_str n) = Some (int n)"
proof -
  have tw: "takeWhile is_digit (nat_str n) = nat_str n"
    using nat_str_digits [of n] by simp
  show ?thesis
    using nat_str_digits [of n] by (simp add: parseInt_def Let_def tw nat_str_value)
qed

lemma match_all_adjust:
  assumes "c = CHR ''+'' \<or> c = CHR ''-''" "ds \<noteq> []" "\<forall>x\<in>set ds. is_digit x" "is_unit u"
  shows "match_all (c # ds @ [u]) = [c # ds @ [u]]"
proof -
  have "digits_unit_at (ds @ [u]) = Some (ds @ [u], [])"
    unfolding digits_unit_at_iff using assms(2-4) by blast
  with assms(1) have "regex_at (c # ds @ [u]) = Some (c # ds @ [u], [])"
    by (auto simp: regex_at_def number_at_def)
  then show ?thesis
    by (simp add: match_all_Some)
qed

lemma parse_adjust:
  assumes "c = CHR ''+'' \<or> c = CHR ''-''" "0 < n" "is_unit u"
  shows "parse now (''now'' @ c # num_str n @ [u]) = Inr (applyAdjustment now [c] n [u])"
proof -
  from assms(2) have s: "num_str n = nat_str (nat n)"
    by (simp add: num_str_def)
  have d: "nat_str (nat n) \<noteq> []" "\<forall>x\<in>set (nat_str (nat n)). is_digit x"
    using nat_str_digits [of "nat n"] by simp_all
  have a: "apply_operation now (c # nat_str (nat n) @ [u]) = Inr (applyAdjustment now [c] n [u])"
    using assms(2) by (simp add: apply_operation_adjust [OF assms(1) d(1)] parseInt_nat_str)
  have "parse now (''now'' @ c # nat_str (nat n) @ [u]) =
      apply_operations now (match_all (c # nat_str (nat n) @ [u]))"
    by (rule parse_now)
  also have "\<dots> = Inr (applyAdjustment now [c] n [u])"
    by (simp add: match_all_adjust [OF assms(1) d assms(3)] a)
  finally show ?thesis
    by (simp only: s)
qed

section \<open>Adjustments by months and years\<close>

lemma month_index_inj:
  assumes "month_index a = month_index b"
  shows "YearFromTime a = YearFromTime b" "MonthFromTime a = MonthFromTime b"
  using assms MonthFromTime_range [of a] MonthFromTime_range [of b]
  unfolding month_index_def by presburger+

text \<open>A time is determined by its calendar fields and its time within the day.\<close>

lemma fields_eq:
  assumes "month_index a = month_index b" "DateFromTime a = DateFromTime b"
    "TimeWithinDay a = TimeWithinDay b"
  shows "a = b"
proof -
  have "Day a = MakeDay (YearFromTime a) (MonthFromTime a) (DateFromTime a)"
    using MakeDay_fields [of a 0] by simp
  also have "\<dots> = MakeDay (YearFromTime b) (MonthFromTime b) (DateFromTime b)"
    by (simp only: month_index_inj [OF assms(1)] assms(2))
  also have "\<dots> = Day b"
    using MakeDay_fields [of b 0] by simp
  finally have "MakeDate (Day a) (TimeWithinDay a) = MakeDate (Day b) (TimeWithinDay b)"
    by (simp only: assms(3))
  then show ?thesis
    by (simp only: MakeDate_Day)
qed

lemma month_days_index:
  "month_days (12 * y + m) =
     DaysInMonth (m mod 12) (if DaysInYear (y + m div 12) = 366 then 1 else 0)"
proof -
  have "(12 * y + m) mod 12 = m mod 12" "(12 * y + m) div 12 = y + m div 12"
    by simp_all
  then show ?thesis
    by (simp only: month_days_def)
qed

text \<open>The date of a time is a day of its month.\<close>

lemma month_days_own: "DateFromTime t \<le> month_days (month_index t)"
proof -
  have "MonthFromTime t div 12 = 0" "MonthFromTime t mod 12 = MonthFromTime t"
    using MonthFromTime_range [of t] by simp_all
  then have "month_days (month_index t) = DaysInMonth (MonthFromTime t) (InLeapYear t)"
    by (simp add: month_index_def month_days_index InLeapYear_def)
  then show ?thesis
    using DateFromTime_upper [of t] by simp
qed

lemma MakeDate_fields:
  fixes y m dt t :: int
  assumes "1 \<le> dt" "dt \<le> month_days (12 * y + m)"
  defines "t' \<equiv> MakeDate (MakeDay y m dt) (TimeWithinDay t)"
  shows "month_index t' = 12 * y + m" "DateFromTime t' = dt" "TimeWithinDay t' = TimeWithinDay t"
proof -
  note dm = assms(2) [unfolded month_days_index]
  have d: "Day t' = MakeDay y m dt"
    unfolding t'_def by (rule Day_MakeDate(1) [OF TimeWithinDay_range])
  show "TimeWithinDay t' = TimeWithinDay t"
    unfolding t'_def by (rule Day_MakeDate(2) [OF TimeWithinDay_range])
  show "DateFromTime t' = dt"
    by (rule MakeDay_date [OF assms(1) dm d])
  have "12 * (m div 12) + m mod 12 = m"
    by (rule mult_div_mod_eq)
  then show "month_index t' = 12 * y + m"
    by (simp add: month_index_def MakeDay_year [OF assms(1) dm d] MakeDay_month [OF assms(1) dm d]
        algebra_simps)
qed

text \<open>
  An adjustment by months or years to a month that has the date of the running time
  moves the month and keeps the date and the time within the day.
\<close>

lemma applyAdjustment_months:
  fixes t v :: int and sg u :: string
  assumes "u \<in> {''M'', ''y''}"
    and "getUTCDate t \<le> month_days (month_index t + (if sg = ''+'' then v else - v) * unit_months u)"
  defines "t' \<equiv> applyAdjustment t sg v u"
  shows "month_index t' = month_index t + (if sg = ''+'' then v else - v) * unit_months u"
    and "getUTCDate t' = getUTCDate t" and "TimeWithinDay t' = TimeWithinDay t"
proof -
  let ?k = "if sg = ''+'' then v else - v"
  let ?y = "YearFromTime t + (if u = ''y'' then ?k else 0)"
  let ?m = "MonthFromTime t + (if u = ''M'' then ?k else 0)"
  have i: "12 * ?y + ?m = month_index t + ?k * unit_months u"
    using assms(1) by (auto simp: month_index_def unit_months_def)
  have dt: "1 \<le> DateFromTime t" "DateFromTime t \<le> month_days (12 * ?y + ?m)"
    using assms(2) DateFromTime_lower [of t] by (simp_all only: i getUTCDate_def)
  have t': "t' = MakeDate (MakeDay ?y ?m (DateFromTime t)) (TimeWithinDay t)"
    using assms(1)
    by (auto simp: t'_def applyAdjustment_def setUTCMonth_def setUTCFullYear_def getUTCMonth_def
        getUTCFullYear_def)
  show "month_index t' = month_index t + ?k * unit_months u"
    unfolding t' by (simp only: MakeDate_fields(1) [OF dt] i)
  show "getUTCDate t' = getUTCDate t"
    unfolding t' getUTCDate_def by (rule MakeDate_fields(2) [OF dt])
  show "TimeWithinDay t' = TimeWithinDay t"
    unfolding t' by (rule MakeDate_fields(3) [OF dt])
qed

lemma applyAdjustment_months_back:
  assumes "u \<in> {''M'', ''y''}"
    and "getUTCDate t \<le> month_days (month_index t + v * unit_months u)"
  shows "applyAdjustment (applyAdjustment t ''+'' v u) ''-'' v u = t"
proof -
  let ?t1 = "applyAdjustment t ''+'' v u"
  have d: "getUTCDate t \<le>
      month_days (month_index t + (if ''+'' = ''+'' then v else - v) * unit_months u)"
    using assms(2) by simp
  note a = applyAdjustment_months [OF assms(1) d]
  have "month_index ?t1 + (if ''-'' = ''+'' then v else - v) * unit_months u = month_index t"
    using a(1) by simp
  then have d1: "getUTCDate ?t1 \<le>
      month_days (month_index ?t1 + (if ''-'' = ''+'' then v else - v) * unit_months u)"
    using a(2) month_days_own [of t] by (simp add: getUTCDate_def)
  note b = applyAdjustment_months [OF assms(1) d1]
  show ?thesis
  proof (rule fields_eq)
    show "month_index (applyAdjustment ?t1 ''-'' v u) = month_index t"
      using a(1) b(1) by simp
    show "DateFromTime (applyAdjustment ?t1 ''-'' v u) = DateFromTime t"
      using a(2) b(2) by (simp add: getUTCDate_def)
    show "TimeWithinDay (applyAdjustment ?t1 ''-'' v u) = TimeWithinDay t"
      using a(3) b(3) by simp
  qed
qed

section \<open>Sign symmetry\<close>

lemma unit_of_string:
  assumes "u \<in> {''s'', ''m'', ''h'', ''d'', ''w'', ''M'', ''y''}"
  obtains c where "u = [c]" "is_unit c"
  using assms by (auto simp: is_unit_def)

lemma parse_plus_minus:
  assumes "0 < n" "u \<in> {''s'', ''m'', ''h'', ''d'', ''w'', ''M'', ''y''}"
  shows "parse now (''now+'' @ num_str n @ u) = Inr (applyAdjustment now ''+'' n u)"
    and "parse now (''now-'' @ num_str n @ u) = Inr (applyAdjustment now ''-'' n u)"
proof -
  from assms(2) obtain c where u: "u = [c]" "is_unit c"
    by (rule unit_of_string)
  show "parse now (''now+'' @ num_str n @ u) = Inr (applyAdjustment now ''+'' n u)"
    using parse_adjust [of "CHR ''+''" n c now] assms(1) u by simp
  show "parse now (''now-'' @ num_str n @ u) = Inr (applyAdjustment now ''-'' n u)"
    using parse_adjust [of "CHR ''-''" n c now] assms(1) u by simp
qed

text \<open>
  C6, as stated, fails for months and years. From 2020-03-31T12:00:00.000Z, \<open>now+1M\<close> is
  2020-05-01T12:00:00.000Z (April has no 31st, and the date runs over into May), and
  \<open>now-1M\<close> from there is 2020-04-01T12:00:00.000Z, not the reference instant. Nor are
  the two adjustments of the reference instant opposite: \<open>now-1M\<close> is
  2020-03-02T12:00:00.000Z, 29 days back, and \<open>now+1M\<close> 31 days on.
\<close>

theorem sign_symmetry_counterexample:
  "parse (Date_UTC 2020 2 31 12 0 0 0) ''now+1M'' = Inr (Date_UTC 2020 4 1 12 0 0 0) \<and>
   parse (Date_UTC 2020 4 1 12 0 0 0) ''now-1M'' = Inr (Date_UTC 2020 3 1 12 0 0 0) \<and>
   Date_UTC 2020 3 1 12 0 0 0 \<noteq> Date_UTC 2020 2 31 12 0 0 0 \<and>
   parse (Date_UTC 2020 2 31 12 0 0 0) ''now-1M'' = Inr (Date_UTC 2020 2 2 12 0 0 0) \<and>
   Date_UTC 2020 4 1 12 0 0 0 - Date_UTC 2020 2 31 12 0 0 0 = 31 * msPerDay \<and>
   Date_UTC 2020 2 31 12 0 0 0 - Date_UTC 2020 2 2 12 0 0 0 = 29 * msPerDay"
  by (intro conjI; simp add: parse_eval calendar_eval)
text \<open>
  C6, amended. Take a positive magnitude \<open>n\<close> below \<open>2\<^sup>5\<^sup>3\<close> and a valid reference
  instant, such that both adjusted instants are valid dates (time values within
  \<open>8.64 * 10\<^sup>1\<^sup>5\<close> ms of the epoch). With a unit of fixed length (\<open>s\<close>, \<open>m\<close>, \<open>h\<close>, \<open>d\<close>,
  \<open>w\<close>), \<open>now+nu\<close> is the reference instant plus \<open>n\<close> times the length of the unit and
  \<open>now-nu\<close> the reference instant minus as much, so the \<open>-\<close> form applied to the result of
  the \<open>+\<close> form returns the reference instant. With \<open>M\<close> or \<open>y\<close>, when the day of the month
  of the reference instant exists in both target months (the calendar months \<open>n\<close>, for
  \<open>y\<close> \<open>12 n\<close>, after and before the month of the reference instant), the two results
  are in these months, on the same day of the month at the same time of day, and again
  the \<open>-\<close> form applied to the result of the \<open>+\<close> form returns the reference instant.
\<close>

theorem sign_symmetry:
  assumes "0 < n" "n < 9007199254740992" "valid_time now"
  shows
    "(u \<in> {''s'', ''m'', ''h'', ''d'', ''w''} \<and>
      valid_time (now + n * unit_ms u) \<and> valid_time (now - n * unit_ms u) \<longrightarrow>
        parse now (''now+'' @ num_str n @ u) = Inr (now + n * unit_ms u) \<and>
        parse now (''now-'' @ num_str n @ u) = Inr (now - n * unit_ms u) \<and>
        parse (now + n * unit_ms u) (''now-'' @ num_str n @ u) = Inr now) \<and>
     (u \<in> {''M'', ''y''} \<and>
      getUTCDate now \<le> month_days (month_index now + n * unit_months u) \<and>
      getUTCDate now \<le> month_days (month_index now - n * unit_months u) \<and>
      valid_time (applyAdjustment now ''+'' n u) \<and> valid_time (applyAdjustment now ''-'' n u) \<longrightarrow>
        (\<exists>tp tm.
           parse now (''now+'' @ num_str n @ u) = Inr tp \<and>
           parse now (''now-'' @ num_str n @ u) = Inr tm \<and>
           month_index tp = month_index now + n * unit_months u \<and>
           month_index tm = month_index now - n * unit_months u \<and>
           getUTCDate tp = getUTCDate now \<and> getUTCDate tm = getUTCDate now \<and>
           TimeWithinDay tp = TimeWithinDay now \<and> TimeWithinDay tm = TimeWithinDay now \<and>
           parse tp (''now-'' @ num_str n @ u) = Inr now))"
proof (intro conjI impI)
  assume "u \<in> {''s'', ''m'', ''h'', ''d'', ''w''} \<and>
      valid_time (now + n * unit_ms u) \<and> valid_time (now - n * unit_ms u)"
  then have u: "u \<in> {''s'', ''m'', ''h'', ''d'', ''w''}"
    by simp
  then have u': "u \<in> {''s'', ''m'', ''h'', ''d'', ''w'', ''M'', ''y''}"
    by auto
  show "parse now (''now+'' @ num_str n @ u) = Inr (now + n * unit_ms u)"
    by (simp only: parse_plus_minus [OF assms(1) u'] applyAdjustment_fixed [OF u]) simp
  show "parse now (''now-'' @ num_str n @ u) = Inr (now - n * unit_ms u)"
    by (simp only: parse_plus_minus [OF assms(1) u'] applyAdjustment_fixed [OF u]) simp
  show "parse (now + n * unit_ms u) (''now-'' @ num_str n @ u) = Inr now"
    by (simp only: parse_plus_minus [OF assms(1) u'] applyAdjustment_fixed [OF u]) simp
next
  assume a: "u \<in> {''M'', ''y''} \<and>
      getUTCDate now \<le> month_days (month_index now + n * unit_months u) \<and>
      getUTCDate now \<le> month_days (month_index now - n * unit_months u) \<and>
      valid_time (applyAdjustment now ''+'' n u) \<and> valid_time (applyAdjustment now ''-'' n u)"
  then have u: "u \<in> {''M'', ''y''}"
    and dp: "getUTCDate now \<le> month_days (month_index now + n * unit_months u)"
    and dm: "getUTCDate now \<le> month_days (month_index now - n * unit_months u)"
    by simp_all
  from u have u': "u \<in> {''s'', ''m'', ''h'', ''d'', ''w'', ''M'', ''y''}"
    by auto
  let ?tp = "applyAdjustment now ''+'' n u"
  let ?tm = "applyAdjustment now ''-'' n u"
  have dp': "getUTCDate now \<le>
      month_days (month_index now + (if ''+'' = ''+'' then n else - n) * unit_months u)"
    using dp by simp
  have dm': "getUTCDate now \<le>
      month_days (month_index now + (if ''-'' = ''+'' then n else - n) * unit_months u)"
    using dm by simp
  note p = applyAdjustment_months [OF u dp']
  note m = applyAdjustment_months [OF u dm']
  have "parse ?tp (''now-'' @ num_str n @ u) = Inr now"
    by (simp only: parse_plus_minus [OF assms(1) u'] applyAdjustment_months_back [OF u dp])
  with p m show "\<exists>tp tm.
      parse now (''now+'' @ num_str n @ u) = Inr tp \<and>
      parse now (''now-'' @ num_str n @ u) = Inr tm \<and>
      month_index tp = month_index now + n * unit_months u \<and>
      month_index tm = month_index now - n * unit_months u \<and>
      getUTCDate tp = getUTCDate now \<and> getUTCDate tm = getUTCDate now \<and>
      TimeWithinDay tp = TimeWithinDay now \<and> TimeWithinDay tm = TimeWithinDay now \<and>
      parse tp (''now-'' @ num_str n @ u) = Inr now"
    by (intro exI [of _ ?tp] exI [of _ ?tm]) (simp only: parse_plus_minus [OF assms(1) u'], simp)
qed

theorem sign_symmetry_witness:
  "valid_time 1591968017486 \<and>
   valid_time (1591968017486 + 3 * unit_ms ''d'') \<and>
   valid_time (1591968017486 - 3 * unit_ms ''d'') \<and>
   parse 1591968017486 ''now+3d'' = Inr (1591968017486 + 3 * 86400000) \<and>
   parse 1591968017486 ''now-3d'' = Inr (1591968017486 - 3 * 86400000) \<and>
   parse (1591968017486 + 3 * 86400000) ''now-3d'' = Inr 1591968017486 \<and>
   valid_time (Date_UTC 2020 2 31 12 0 0 0) \<and>
   getUTCDate (Date_UTC 2020 2 31 12 0 0 0) = 31 \<and>
   month_days (month_index (Date_UTC 2020 2 31 12 0 0 0) + 2 * unit_months ''M'') = 31 \<and>
   month_days (month_index (Date_UTC 2020 2 31 12 0 0 0) - 2 * unit_months ''M'') = 31 \<and>
   valid_time (applyAdjustment (Date_UTC 2020 2 31 12 0 0 0) ''+'' 2 ''M'') \<and>
   valid_time (applyAdjustment (Date_UTC 2020 2 31 12 0 0 0) ''-'' 2 ''M'') \<and>
   (\<exists>tp tm.
      parse (Date_UTC 2020 2 31 12 0 0 0) ''now+2M'' = Inr tp \<and>
      parse (Date_UTC 2020 2 31 12 0 0 0) ''now-2M'' = Inr tm \<and>
      month_index tp = month_index (Date_UTC 2020 2 31 12 0 0 0) + 2 \<and>
      month_index tm = month_index (Date_UTC 2020 2 31 12 0 0 0) - 2 \<and>
      getUTCDate tp = 31 \<and> getUTCDate tm = 31 \<and>
      parse tp ''now-2M'' = Inr (Date_UTC 2020 2 31 12 0 0 0)) \<and>
   month_days (month_index (Date_UTC 2020 2 31 12 0 0 0) + 1 * unit_months ''y'') = 31 \<and>
   month_days (month_index (Date_UTC 2020 2 31 12 0 0 0) - 1 * unit_months ''y'') = 31 \<and>
   valid_time (applyAdjustment (Date_UTC 2020 2 31 12 0 0 0) ''+'' 1 ''y'') \<and>
   valid_time (applyAdjustment (Date_UTC 2020 2 31 12 0 0 0) ''-'' 1 ''y'') \<and>
   (\<exists>tp tm.
      parse (Date_UTC 2020 2 31 12 0 0 0) ''now+1y'' = Inr tp \<and>
      parse (Date_UTC 2020 2 31 12 0 0 0) ''now-1y'' = Inr tm \<and>
      month_index tp = month_index (Date_UTC 2020 2 31 12 0 0 0) + 12 \<and>
      month_index tm = month_index (Date_UTC 2020 2 31 12 0 0 0) - 12 \<and>
      getUTCDate tp = 31 \<and> getUTCDate tm = 31 \<and>
      parse tp ''now-1y'' = Inr (Date_UTC 2020 2 31 12 0 0 0))"
proof -
  let ?r = "1591968017486 :: int"
  let ?e = "Date_UTC 2020 2 31 12 0 0 0"
  have s: "num_str 3 = ''3''" "num_str 2 = ''2''" "num_str 1 = ''1''"
    by (simp_all add: num_str_def digit_char_def)
  have n: "(0 :: int) < 3" "(3 :: int) < 9007199254740992" "(0 :: int) < 2"
    "(2 :: int) < 9007199254740992" "(0 :: int) < 1" "(1 :: int) < 9007199254740992"
    by simp_all
  have v: "valid_time ?r" "valid_time (?r + 3 * unit_ms ''d'')"
    "valid_time (?r - 3 * unit_ms ''d'')" "valid_time ?e"
    by (simp_all add: valid_time_def unit_ms_def calendar_eval)
  have d: "getUTCDate ?e = 31"
    by (simp add: calendar_eval)
  have i: "month_index ?e = 24242"
    by (simp add: month_index_def calendar_eval)
  have md: "month_days (24242 + 2) = 31" "month_days (24242 - 2) = 31"
    "month_days (24242 + 12) = 31" "month_days (24242 - 12) = 31"
    by (simp_all add: month_days_def DaysInMonth_def DaysInYear_def)
  have va: "valid_time (applyAdjustment ?e ''+'' 2 ''M'')"
    "valid_time (applyAdjustment ?e ''-'' 2 ''M'')"
    "valid_time (applyAdjustment ?e ''+'' 1 ''y'')"
    "valid_time (applyAdjustment ?e ''-'' 1 ''y'')"
    by (simp_all add: valid_time_def applyAdjustment_def calendar_eval)
  have u: "''d'' \<in> {''s'', ''m'', ''h'', ''d'', ''w''}" "''M'' \<in> {''M'', ''y''}"
    "''y'' \<in> {''M'', ''y''}"
    by simp_all
  have um: "unit_months ''M'' = 1" "unit_months ''y'' = 12" "unit_ms ''d'' = 86400000"
    by (simp_all add: unit_months_def unit_ms_def)
  note a = sign_symmetry [OF n(1,2) v(1), of "''d''", THEN conjunct1, rule_format,
      OF conjI [OF u(1) conjI [OF v(2,3)]]]
  have b: "\<exists>tp tm.
      parse ?e (''now+'' @ num_str 2 @ ''M'') = Inr tp \<and>
      parse ?e (''now-'' @ num_str 2 @ ''M'') = Inr tm \<and>
      month_index tp = month_index ?e + 2 * unit_months ''M'' \<and>
      month_index tm = month_index ?e - 2 * unit_months ''M'' \<and>
      getUTCDate tp = getUTCDate ?e \<and> getUTCDate tm = getUTCDate ?e \<and>
      TimeWithinDay tp = TimeWithinDay ?e \<and> TimeWithinDay tm = TimeWithinDay ?e \<and>
      parse tp (''now-'' @ num_str 2 @ ''M'') = Inr ?e"
    using sign_symmetry [OF n(3,4) v(4), of "''M''"] u(2) d i md(1,2) va(1,2) um(1)
    by simp
  have c: "\<exists>tp tm.
      parse ?e (''now+'' @ num_str 1 @ ''y'') = Inr tp \<and>
      parse ?e (''now-'' @ num_str 1 @ ''y'') = Inr tm \<and>
      month_index tp = month_index ?e + 1 * unit_months ''y'' \<and>
      month_index tm = month_index ?e - 1 * unit_months ''y'' \<and>
      getUTCDate tp = getUTCDate ?e \<and> getUTCDate tm = getUTCDate ?e \<and>
      TimeWithinDay tp = TimeWithinDay ?e \<and> TimeWithinDay tm = TimeWithinDay ?e \<and>
      parse tp (''now-'' @ num_str 1 @ ''y'') = Inr ?e"
    using sign_symmetry [OF n(5,6) v(4), of "''y''"] u(3) d i md(3,4) va(3,4) um(2)
    by simp
  from a have a': "parse ?r ''now+3d'' = Inr (?r + 3 * 86400000)"
    "parse ?r ''now-3d'' = Inr (?r - 3 * 86400000)"
    "parse (?r + 3 * 86400000) ''now-3d'' = Inr ?r"
    by (simp_all add: s um)
  from b have b': "\<exists>tp tm.
      parse ?e ''now+2M'' = Inr tp \<and> parse ?e ''now-2M'' = Inr tm \<and>
      month_index tp = month_index ?e + 2 \<and> month_index tm = month_index ?e - 2 \<and>
      getUTCDate tp = 31 \<and> getUTCDate tm = 31 \<and> parse tp ''now-2M'' = Inr ?e"
    unfolding s um d by simp blast
  from c have c': "\<exists>tp tm.
      parse ?e ''now+1y'' = Inr tp \<and> parse ?e ''now-1y'' = Inr tm \<and>
      month_index tp = month_index ?e + 12 \<and> month_index tm = month_index ?e - 12 \<and>
      getUTCDate tp = 31 \<and> getUTCDate tm = 31 \<and> parse tp ''now-1y'' = Inr ?e"
    unfolding s um d by simp blast
  show ?thesis
    using v d md va a' b' c' by (simp only: i um mult_1) simp
qed

end
